theory Spec2Isabelle
  imports Complex_Main
begin

section \<open>Data model of \<^verbatim>\<open>mmc_mesh.c\<close>\<close>

text \<open>
  The program computes in IEEE single and double precision. The embedding computes in
  \<^typ>\<open>real\<close>: every result below is a statement about the arithmetic the source writes
  down, carried out exactly. C \<^verbatim>\<open>int\<close> values are \<^typ>\<open>int\<close>; the arrays of the mesh are
  lists, indexed from 0 as in C, and hold the 1-based node and element numbers of the
  source unchanged.
\<close>

type_synonym FLOAT3 = "real \<times> real \<times> real"

text \<open>
  A floating-point value that exact arithmetic does not have (the NaN or infinity that
  IEEE arithmetic returns for a division by zero, or for \<^verbatim>\<open>acosf\<close> and \<^verbatim>\<open>asin\<close> outside
  \<open>[-1, 1]\<close>) is
  \<^const>\<open>None\<close>.
\<close>

definition fdiv :: "real \<Rightarrow> real \<Rightarrow> real option" where
  "fdiv a b = (if b = 0 then None else Some (a / b))"

definition facos :: "real \<Rightarrow> real option" where
  "facos v = (if - 1 \<le> v \<and> v \<le> 1 then Some (arccos v) else None)"

definition fasin :: "real \<Rightarrow> real option" where
  "fasin v = (if - 1 \<le> v \<and> v \<le> 1 then Some (arcsin v) else None)"

text \<open>
  Modelled from the spec: the vector helpers \<^verbatim>\<open>vec_diff3\<close>, \<^verbatim>\<open>vec_cross3\<close> and
  \<^verbatim>\<open>vec_dot3\<close>, which \<^verbatim>\<open>mmc_mesh.c\<close> calls and a header outside the sources defines
  (the spec's ``edge vectors'', ``signed-volume sub-tests'' and ``cross product of the
  two edge endpoints''): \<^verbatim>\<open>vec_diff3(a, b, res)\<close> stores \<open>b - a\<close>, the other two are the
  cross and the dot product.
\<close>

definition vec_diff3 :: "FLOAT3 \<Rightarrow> FLOAT3 \<Rightarrow> FLOAT3" where
  "vec_diff3 a b = (case a of (ax, ay, az) \<Rightarrow> case b of (bx, by, bz) \<Rightarrow>
     (bx - ax, by - ay, bz - az))"

definition vec_cross3 :: "FLOAT3 \<Rightarrow> FLOAT3 \<Rightarrow> FLOAT3" where
  "vec_cross3 a b = (case a of (ax, ay, az) \<Rightarrow> case b of (bx, by, bz) \<Rightarrow>
     (ay * bz - az * by, az * bx - ax * bz, ax * by - ay * bx))"

definition vec_dot3 :: "FLOAT3 \<Rightarrow> FLOAT3 \<Rightarrow> real" where
  "vec_dot3 a b = (case a of (ax, ay, az) \<Rightarrow> case b of (bx, by, bz) \<Rightarrow>
     ax * bx + ay * by + az * bz)"

text \<open>The optical properties of one region (\<^verbatim>\<open>medium\<close>: fields \<^verbatim>\<open>mua, mus, g, n\<close>).\<close>

record medium =
  mua :: real
  mus :: real
  med_g :: real
  med_n :: real

datatype srctype_t = stPencil | stIsotropic | stCone | stArcSin | stOtherSource

datatype method_t = rtPlucker | rtHavel | rtBadouel | rtBLBadouel | rtBLBadouelGrid | rtOtherMethod

datatype outputtype_t = otFlux | otFluence | otEnergy | otJacobian | otWL | otWP

text \<open>
  \<^verbatim>\<open>MESH_ERROR(msg)\<close> prints the message and ends the process (\<^verbatim>\<open>mesh_error\<close> calls
  \<^verbatim>\<open>exit(1)\<close>, or throws in the container build). \<open>Undefined\<close> stands for C undefined
  behaviour: an array read or written outside its bounds, or a null pointer dereferenced.
\<close>

datatype mesh_fault = MESH_ERROR string | Undefined

text \<open>
  \<^verbatim>\<open>tetmesh\<close>. The field \<^verbatim>\<open>prop\<close> is \<open>mesh_prop\<close> here. A pointer that \<^verbatim>\<open>mesh_init\<close>
  sets to \<^verbatim>\<open>NULL\<close> is the empty list, except \<^verbatim>\<open>dref\<close>, whose nullness the code tests.
\<close>

record tetmesh =
  nn :: int
  ne :: int
  nf :: int
  mesh_prop :: int
  elemlen :: int
  node :: "FLOAT3 list"
  elem :: "int list"
  type :: "int list"
  facenb :: "int list"
  med :: "medium list"
  evol :: "real list"
  nvol :: "real list"
  weight :: "real list"
  dref :: "real list option"
  srcelemlen :: int
  srcelem :: "int list"
  detelemlen :: int
  detelem :: "int list"

text \<open>The fields of \<^verbatim>\<open>mcconfig\<close> that the functions below read or write
  (\<^verbatim>\<open>method\<close> is \<open>cfg_method\<close>, \<^verbatim>\<open>prop\<close> is \<open>cfg_prop\<close>, \<^verbatim>\<open>crop0.z\<close> is \<open>crop0_z\<close> and
  \<^verbatim>\<open>his.maxmedia\<close> is \<open>his_maxmedia\<close>).\<close>

record mcconfig =
  e0 :: int
  isextdet :: int
  detnum :: int
  medianum :: int
  nout :: real
  cfg_prop :: "medium list"
  unitinmm :: real
  cfg_method :: method_t
  srcpos :: FLOAT3
  bary0 :: "real option list"
  srctype :: srctype_t
  isnormalized :: int
  basisorder :: int
  isreflect :: int
  issaveref :: int
  srcnum :: int
  maxgate :: int
  seed :: int
  outputtype :: outputtype_t
  nphoton :: int
  crop0_z :: int
  tstep :: real
  ismomentum :: int
  his_maxmedia :: int

text \<open>
  The constants of \<^verbatim>\<open>mmc_const.h\<close>, a header that is not among the sources, are
  parameters: \<open>EPS\<close>, \<open>VERY_BIG\<close>, \<open>DELTA_MUA\<close> and \<open>SEED_FROM_FILE\<close>.
\<close>

record mmc_const =
  EPS :: real
  VERY_BIG :: real
  DELTA_MUA :: real
  SEED_FROM_FILE :: int

text \<open>\<^verbatim>\<open>mesh_init\<close>: the constructor's default values.\<close>

definition mesh_init :: tetmesh where
  "mesh_init = \<lparr> nn = 0, ne = 0, nf = 0, mesh_prop = 0, elemlen = 4, node = [], elem = [],
     type = [], facenb = [], med = [], evol = [], nvol = [], weight = [], dref = None,
     srcelemlen = 0, srcelem = [], detelemlen = 0, detelem = [] \<rparr>"

text \<open>
  The local node numbers of the four faces (\<^verbatim>\<open>out\<close>), and the index maps between
  faces, opposite nodes and neighbour slots.
\<close>

definition out :: "nat list list" where
  "out = [[0, 3, 1], [3, 2, 1], [0, 2, 3], [0, 1, 2]]"

definition facemap :: "nat list" where
  "facemap = [2, 0, 1, 3]"

definition ifaceorder :: "nat list" where
  "ifaceorder = [3, 0, 2, 1]"

subsection \<open>Element and nodal volumes (\<^verbatim>\<open>mesh_getvolume\<close>, lines 899--938)\<close>

text \<open>
  The value of \<^verbatim>\<open>evol[i]\<close> after line 919, for the four corner nodes of the element:
  six times the signed volume.
\<close>

definition tet_vol6 :: "FLOAT3 \<Rightarrow> FLOAT3 \<Rightarrow> FLOAT3 \<Rightarrow> FLOAT3 \<Rightarrow> real" where
  "tet_vol6 n0 n1 n2 n3 =
     (case n0 of (x0, y0, z0) \<Rightarrow> case n1 of (x1, y1, z1) \<Rightarrow>
      case n2 of (x2, y2, z2) \<Rightarrow> case n3 of (x3, y3, z3) \<Rightarrow>
        let dx = x2 - x3; dy = y2 - y3; dz = z2 - z3;
            v = x1 * (y2 * z3 - z2 * y3) - y1 * (x2 * z3 - z2 * x3) + z1 * (x2 * y3 - y2 * x3);
            v = v + - x0 * ((y2 * z3 - z2 * y3) + y1 * dz - z1 * dy);
            v = v + y0 * ((x2 * z3 - z2 * x3) + x1 * dz - z1 * dx);
            v = v + - z0 * ((x2 * y3 - y2 * x3) + x1 * dy - y1 * dx)
        in - v)"

text \<open>
  One pass of the loop over the elements, on the arrays \<^verbatim>\<open>elem\<close>, \<^verbatim>\<open>evol\<close>, \<^verbatim>\<open>nvol\<close>:
  the volume, the swap of the third and fourth node when it is negative, the scaling by
  \<open>1/6\<close>, and the quarter shares added to the element's nodes unless its region is 0.
\<close>

definition getvolume_elem ::
  "tetmesh \<Rightarrow> nat \<Rightarrow> int list \<times> real list \<times> real list \<Rightarrow> int list \<times> real list \<times> real list" where
  "getvolume_elem mesh i s = (case s of (el, ev, nv) \<Rightarrow>
     let L = nat (elemlen mesh); b = i * L;
         nd = (\<lambda>j. node mesh ! nat (el ! (b + j) - 1));
         v = tet_vol6 (nd 0) (nd 1) (nd 2) (nd 3);
         el' = (if v < 0 then (el[b + 3 := el ! (b + 2)])[b + 2 := el ! (b + 3)] else el);
         v' = (if v < 0 then - v else v) * (1 / 6);
         ev' = ev[i := v']
     in if type mesh ! i = 0 then (el', ev', nv)
        else (el', ev',
              fold (\<lambda>j nv. nv[nat (el' ! (b + j) - 1) :=
                               nv ! nat (el' ! (b + j) - 1) + ev' ! i * 0.25])
                [0..<L] nv))"

text \<open>
  The array accesses of the loop stay within bounds when the arrays have the announced
  sizes and every node number read lies in \<open>1..nn\<close>: the four corners of each element, and
  all \<open>elemlen\<close> nodes of an element whose region is not 0.
\<close>

definition getvolume_ok :: "tetmesh \<Rightarrow> bool" where
  "getvolume_ok mesh \<longleftrightarrow>
     4 \<le> elemlen mesh \<and> 0 \<le> nn mesh \<and>
     length (node mesh) = nat (nn mesh) \<and>
     nat (ne mesh) \<le> length (type mesh) \<and>
     nat (ne mesh) * nat (elemlen mesh) \<le> length (elem mesh) \<and>
     list_all (\<lambda>i. list_all (\<lambda>j. 1 \<le> elem mesh ! (i * nat (elemlen mesh) + j)
                                \<and> elem mesh ! (i * nat (elemlen mesh) + j) \<le> nn mesh)
                  [0..<(if type mesh ! i = 0 then 4 else nat (elemlen mesh))])
       [0..<nat (ne mesh)]"

definition mesh_getvolume :: "tetmesh \<Rightarrow> mesh_fault + tetmesh" where
  "mesh_getvolume mesh =
     (if \<not> getvolume_ok mesh then Inl Undefined
      else (case fold (getvolume_elem mesh) [0..<nat (ne mesh)]
                   (elem mesh, replicate (nat (ne mesh)) 0, replicate (nat (nn mesh)) 0) of
              (el, ev, nv) \<Rightarrow> Inr (mesh\<lparr>elem := el, evol := ev, nvol := nv\<rparr>)))"

text \<open>Notions in which the properties of \<^verbatim>\<open>mesh_getvolume\<close> are stated.\<close>

definition elem_at :: "tetmesh \<Rightarrow> nat \<Rightarrow> nat \<Rightarrow> int" where
  "elem_at mesh i j = elem mesh ! (i * nat (elemlen mesh) + j)"

definition elem_nodes :: "tetmesh \<Rightarrow> nat \<Rightarrow> int list" where
  "elem_nodes mesh i = map (elem_at mesh i) [0..<nat (elemlen mesh)]"

definition node_at :: "tetmesh \<Rightarrow> nat \<Rightarrow> nat \<Rightarrow> FLOAT3" where
  "node_at mesh i j = node mesh ! nat (elem_at mesh i j - 1)"

definition elem_vol6 :: "tetmesh \<Rightarrow> nat \<Rightarrow> real" where
  "elem_vol6 mesh i = tet_vol6 (node_at mesh i 0) (node_at mesh i 1) (node_at mesh i 2) (node_at mesh i 3)"

text \<open>
  The arrays the loop leaves behind: node \<open>j\<close> of element \<open>i\<close> (the third and fourth node
  of an element of negative volume exchanged), the volume of element \<open>i\<close>, and the share
  that element \<open>i\<close> adds to node \<open>n\<close> (node number \<open>n + 1\<close>).
\<close>

definition swap23 :: "nat \<Rightarrow> nat" where
  "swap23 j = (if j = 2 then 3 else if j = 3 then 2 else j)"

definition fixed_at :: "tetmesh \<Rightarrow> nat \<Rightarrow> nat \<Rightarrow> int" where
  "fixed_at mesh i j = (if elem_vol6 mesh i < 0 then elem_at mesh i (swap23 j) else elem_at mesh i j)"

definition fixed_vol :: "tetmesh \<Rightarrow> nat \<Rightarrow> real" where
  "fixed_vol mesh i = \<bar>elem_vol6 mesh i\<bar> * (1 / 6)"

definition node_share :: "tetmesh \<Rightarrow> nat \<Rightarrow> nat \<Rightarrow> real" where
  "node_share mesh i n =
     (if type mesh ! i = 0 then 0
      else (\<Sum>j < nat (elemlen mesh). if elem_at mesh i j = int n + 1 then fixed_vol mesh i * (1 / 4) else 0))"

definition incident :: "tetmesh \<Rightarrow> nat \<Rightarrow> nat \<Rightarrow> bool" where
  "incident mesh i n \<longleftrightarrow> int n + 1 \<in> set (elem_nodes mesh i)"

definition mesh_w1 :: tetmesh where
  "mesh_w1 = mesh_init\<lparr>nn := 5, ne := 2,
     node := [(0, 0, 0), (1, 0, 0), (0, 1, 0), (0, 0, 1), (1, 1, 1)],
     elem := [1, 2, 3, 4, 2, 3, 4, 5], type := [1, 0]\<rparr>"

subsection \<open>Locating the enclosing element (\<^verbatim>\<open>mesh_barycentric\<close>, \<^verbatim>\<open>mesh_initelem\<close>)\<close>

text \<open>
  The value that the first loop of \<^verbatim>\<open>mesh_barycentric\<close> stores in
  \<^verbatim>\<open>bary[facemap[i]]\<close> for face \<open>i\<close> of element \<open>eid\<close> (0-based).
\<close>

definition bary_face :: "tetmesh \<Rightarrow> nat \<Rightarrow> FLOAT3 \<Rightarrow> nat \<Rightarrow> real" where
  "bary_face mesh eid p i =
     (let b = eid * nat (elemlen mesh);
          ea = nat (elem mesh ! (b + out ! i ! 0) - 1);
          eb = nat (elem mesh ! (b + out ! i ! 1) - 1);
          ec = nat (elem mesh ! (b + out ! i ! 2) - 1);
          vecAB = vec_diff3 (node mesh ! ea) (node mesh ! eb);
          vecAC = vec_diff3 (node mesh ! ea) (node mesh ! ec);
          vecS = vec_diff3 (node mesh ! ea) p;
          vecN = vec_cross3 vecAB vecAC
      in - vec_dot3 vecS vecN)"

text \<open>
  The array \<^verbatim>\<open>bary\<close> after the first loop. The loop assigns entry \<^verbatim>\<open>facemap[i]\<close> for
  \<open>i = 0, \<dots>, 3\<close>; \<^verbatim>\<open>facemap\<close> is a permutation of \<open>0..3\<close>, so the previous content of
  the array is overwritten without being read.
\<close>

definition barycentric_raw :: "tetmesh \<Rightarrow> nat \<Rightarrow> FLOAT3 \<Rightarrow> real list" where
  "barycentric_raw mesh eid p =
     fold (\<lambda>i b. b[facemap ! i := bary_face mesh eid p i]) [0..<4] [0, 0, 0, 0]"

text \<open>
  The second loop: \<^const>\<open>None\<close> when it returns 1 at a negative entry, otherwise the sum
  \<^verbatim>\<open>s\<close> of the entries.
\<close>

fun bary_check :: "real list \<Rightarrow> real \<Rightarrow> real option" where
  "bary_check [] s = Some s"
| "bary_check (v # vs) s = (if v < 0 then None else bary_check vs (s + v))"

text \<open>The node numbers \<open>0..m-1\<close> of element \<open>i\<close> are stored and refer to stored nodes.\<close>

definition elem_refs_ok :: "tetmesh \<Rightarrow> nat \<Rightarrow> nat \<Rightarrow> bool" where
  "elem_refs_ok mesh i m \<longleftrightarrow>
     list_all (\<lambda>j. i * nat (elemlen mesh) + j < length (elem mesh)
                 \<and> 1 \<le> elem mesh ! (i * nat (elemlen mesh) + j)
                 \<and> nat (elem mesh ! (i * nat (elemlen mesh) + j)) \<le> length (node mesh))
       [0..<m]"

text \<open>
  \<^verbatim>\<open>mesh_barycentric(e0, bary, srcpos, mesh)\<close>: the returned \<^verbatim>\<open>int\<close> and the content
  of \<^verbatim>\<open>bary\<close>. The third loop divides by \<^verbatim>\<open>s\<close> without a test.
\<close>

definition mesh_barycentric ::
  "int \<Rightarrow> FLOAT3 \<Rightarrow> tetmesh \<Rightarrow> mesh_fault + (int \<times> real option list)" where
  "mesh_barycentric e p mesh =
     (let eid = e - 1 in
      if ne mesh \<le> eid then Inl (MESH_ERROR ''initial element index exceeds total element count'')
      else if eid < 0 \<or> \<not> elem_refs_ok mesh (nat eid) 4 then Inl Undefined
      else (let b = barycentric_raw mesh (nat eid) p in
            case bary_check b 0 of
              None \<Rightarrow> Inr (1, map Some b)
            | Some s \<Rightarrow> Inr (0, map (\<lambda>v. fdiv v s) b)))"

text \<open>The bounding box of element \<open>i\<close>, over all its \<open>elemlen\<close> nodes.\<close>

definition elem_bbox :: "mmc_const \<Rightarrow> tetmesh \<Rightarrow> nat \<Rightarrow> FLOAT3 \<times> FLOAT3" where
  "elem_bbox K mesh i =
     fold (\<lambda>j (pmin, pmax).
             (case node mesh ! nat (elem mesh ! (i * nat (elemlen mesh) + j) - 1) of (nx, ny, nz) \<Rightarrow>
              case pmin of (ax, ay, az) \<Rightarrow> case pmax of (bx, by, bz) \<Rightarrow>
                ((min nx ax, min ny ay, min nz az), (max nx bx, max ny by, max nz bz))))
       [0..<nat (elemlen mesh)]
       ((VERY_BIG K, VERY_BIG K, VERY_BIG K), (- VERY_BIG K, - VERY_BIG K, - VERY_BIG K))"

definition in_bbox :: "FLOAT3 \<Rightarrow> FLOAT3 \<times> FLOAT3 \<Rightarrow> bool" where
  "in_bbox p box =
     (case p of (px, py, pz) \<Rightarrow> case box of (pmin, pmax) \<Rightarrow>
      case pmin of (ax, ay, az) \<Rightarrow> case pmax of (bx, by, bz) \<Rightarrow>
        px \<le> bx \<and> px \<ge> ax \<and> py \<le> by \<and> py \<ge> ay \<and> pz \<le> bz \<and> pz \<ge> az)"

text \<open>
  The loop of \<^verbatim>\<open>mesh_initelem\<close> over the elements still to be scanned. Every call of
  \<^verbatim>\<open>mesh_barycentric\<close> writes \<^verbatim>\<open>cfg->bary0\<close>; \<^verbatim>\<open>cfg->e0\<close> is written only when an
  element is found.
\<close>

fun initelem_scan ::
  "mmc_const \<Rightarrow> tetmesh \<Rightarrow> nat list \<Rightarrow> mcconfig \<Rightarrow> mesh_fault + (int \<times> mcconfig)" where
  "initelem_scan K mesh [] cfg = Inr (1, cfg)"
| "initelem_scan K mesh (i # is) cfg =
     (if \<not> elem_refs_ok mesh i (nat (elemlen mesh)) then Inl Undefined
      else if in_bbox (srcpos cfg) (elem_bbox K mesh i) then
        (case mesh_barycentric (int i + 1) (srcpos cfg) mesh of
           Inl err \<Rightarrow> Inl err
         | Inr (r, b) \<Rightarrow>
             if r = 0 then Inr (0, cfg\<lparr>bary0 := b, e0 := int i + 1\<rparr>)
             else initelem_scan K mesh is (cfg\<lparr>bary0 := b\<rparr>))
      else initelem_scan K mesh is cfg)"

definition mesh_initelem :: "mmc_const \<Rightarrow> tetmesh \<Rightarrow> mcconfig \<Rightarrow> mesh_fault + (int \<times> mcconfig)" where
  "mesh_initelem K mesh cfg = initelem_scan K mesh [0..<nat (ne mesh)] cfg"

text \<open>Element \<open>i\<close> passes the test for the point \<open>p\<close>: bounding box, then four weights.\<close>

definition encloses :: "mmc_const \<Rightarrow> tetmesh \<Rightarrow> nat \<Rightarrow> FLOAT3 \<Rightarrow> bool" where
  "encloses K mesh i p \<longleftrightarrow>
     in_bbox p (elem_bbox K mesh i) \<and> list_all (\<lambda>v. 0 \<le> v) (barycentric_raw mesh i p)"

definition const_w :: mmc_const where
  "const_w = \<lparr> EPS = 1 / 1000000, VERY_BIG = 1000000, DELTA_MUA = 1 / 100000, SEED_FROM_FILE = - 999 \<rparr>"

definition cfg_w :: mcconfig where
  "cfg_w = \<lparr> e0 = 0, isextdet = 0, detnum = 0, medianum = 0, nout = 1, cfg_prop = [],
     unitinmm = 1, cfg_method = rtPlucker, srcpos = (0, 0, 0), bary0 = [None, None, None, None],
     srctype = stPencil, isnormalized = 1, basisorder = 1, isreflect = 1, issaveref = 0,
     srcnum = 1, maxgate = 1, seed = 0, outputtype = otFlux, nphoton = 0, crop0_z = 0,
     tstep = 1, ismomentum = 0, his_maxmedia = 0 \<rparr>"

text \<open>A unit tetrahedron, and a flat element whose four nodes lie in the plane \<open>z = 0\<close>.\<close>

definition mesh_w2 :: tetmesh where
  "mesh_w2 = mesh_init\<lparr>nn := 4, ne := 1,
     node := [(0, 0, 0), (1, 0, 0), (0, 1, 0), (0, 0, 1)], elem := [1, 2, 4, 3], type := [1]\<rparr>"

definition mesh_c2 :: tetmesh where
  "mesh_c2 = mesh_init\<lparr>nn := 4, ne := 1,
     node := [(0, 0, 0), (1, 0, 0), (0, 1, 0), (1, 1, 0)], elem := [1, 2, 3, 4], type := [1]\<rparr>"

subsection \<open>One scattering event (\<^verbatim>\<open>mc_next_scatter\<close>, lines 1406--1477)\<close>

text \<open>
  Modelled from the spec: the random number generator. \<^verbatim>\<open>rand_next_scatlen\<close>,
  \<^verbatim>\<open>rand_next_aangle\<close> and \<^verbatim>\<open>rand_next_zangle\<close> are defined in headers outside the
  sources; the spec has them return ``uniform random \<open>\<xi>\<close>''. The three numbers that one
  call of \<^verbatim>\<open>mc_next_scatter\<close> draws are its argument.
\<close>

record rand_draws =
  scatlen :: real
  aangle :: real
  zangle :: real

text \<open>Modelled from the spec: the macro \<^verbatim>\<open>TWO_PI\<close> (``azimuthal angle uniform on \<open>[0, 2\<pi>)\<close>'').\<close>

definition TWO_PI :: real where
  "TWO_PI = 2 * pi"

definition scat_azimuth :: "rand_draws \<Rightarrow> real" where
  "scat_azimuth draws = TWO_PI * aangle draws"

text \<open>
  Lines 1432--1453: the pair \<^verbatim>\<open>(stheta, ctheta)\<close> for anisotropy \<open>g\<close> and the draw \<open>xi\<close>.
  The result is \<^const>\<open>None\<close> when a divisor is zero or \<^verbatim>\<open>acosf\<close> is called outside
  \<open>[-1, 1]\<close>: exact arithmetic gives such a call no value.
\<close>

definition scat_polar :: "real \<Rightarrow> real \<Rightarrow> real \<Rightarrow> (real \<times> real) option" where
  "scat_polar eps g xi =
     (if g > eps then
        (case fdiv (1 - g * g) (1 - g + 2 * g * xi) of
           None \<Rightarrow> None
         | Some tmp0 \<Rightarrow>
            (case fdiv (1 + g * g - tmp0 * tmp0) (2 * g) of
               None \<Rightarrow> None
             | Some tmp0 \<Rightarrow>
                 let tmp0 = (if tmp0 > 1 then 1 else tmp0);
                     tmp0 = (if tmp0 < - 1 then - 1 else tmp0)
                 in Some (sqrt (1 - tmp0 * tmp0), tmp0)))
      else
        (case facos (2 * xi - 1) of
           None \<Rightarrow> None
         | Some theta \<Rightarrow> Some (sin theta, cos theta)))"

text \<open>Lines 1455--1467: the new direction \<^verbatim>\<open>p\<close> from the old one and the two angles.\<close>

definition scat_rotate :: "real \<Rightarrow> FLOAT3 \<Rightarrow> real \<times> real \<Rightarrow> real \<times> real \<Rightarrow> FLOAT3 option" where
  "scat_rotate eps dir azim polar =
     (case dir of (dx, dy, dz) \<Rightarrow> case azim of (sphi, cphi) \<Rightarrow> case polar of (stheta, ctheta) \<Rightarrow>
        if dz > - 1 + eps \<and> dz < 1 - eps then
          (let tmp0 = 1 - dz * dz in
           case (if tmp0 < 0 then None else fdiv 1 (sqrt tmp0)) of
             None \<Rightarrow> None
           | Some tmp1 \<Rightarrow>
               let tmp1 = stheta * tmp1 in
               Some (tmp1 * (dx * dz * cphi - dy * sphi) + dx * ctheta,
                     tmp1 * (dy * dz * cphi + dx * sphi) + dy * ctheta,
                     - tmp1 * tmp0 * cphi + dz * ctheta))
        else Some (stheta * cphi, stheta * sphi, if dz > 0 then ctheta else - ctheta))"

text \<open>
  \<^verbatim>\<open>mc_next_scatter\<close>: the returned scattering length, the direction written to
  \<^verbatim>\<open>dir\<close>, and \<^verbatim>\<open>pmom[0]\<close>, the only entry of \<^verbatim>\<open>pmom\<close> that is used.
\<close>

definition mc_next_scatter ::
  "mmc_const \<Rightarrow> real \<Rightarrow> FLOAT3 \<Rightarrow> rand_draws \<Rightarrow> mcconfig \<Rightarrow> real \<Rightarrow> (real \<times> FLOAT3 \<times> real) option" where
  "mc_next_scatter K g dir draws cfg pmom0 =
     (let nextslen = scatlen draws;
          tmp0 = scat_azimuth draws;
          sphi = sin tmp0; cphi = cos tmp0
      in case scat_polar (EPS K) g (zangle draws) of
           None \<Rightarrow> None
         | Some (stheta, ctheta) \<Rightarrow>
            (case scat_rotate (EPS K) dir (sphi, cphi) (stheta, ctheta) of
               None \<Rightarrow> None
             | Some p \<Rightarrow>
                 Some (nextslen, p, if ismomentum cfg \<noteq> 0 then pmom0 + (1 - ctheta) else pmom0)))"

text \<open>The Henyey-Greenstein expression of the spec for \<open>cos \<theta>\<close>.\<close>

definition hg_cos :: "real \<Rightarrow> real \<Rightarrow> real" where
  "hg_cos g xi = 1 / (2 * g) * (1 + g\<^sup>2 - ((1 - g\<^sup>2) / (1 - g + 2 * g * xi))\<^sup>2)"

definition draws_w :: rand_draws where
  "draws_w = \<lparr> scatlen = 1, aangle = 1 / 2, zangle = 1 / 2 \<rparr>"

definition draws_c :: rand_draws where
  "draws_c = \<lparr> scatlen = 1, aangle = 0, zangle = 0 \<rparr>"

subsection \<open>Boundary sequencing (\<^verbatim>\<open>tracer_prep\<close>, lines 1216--1224)\<close>

text \<open>
  \<^verbatim>\<open>for (i = 0; i < ne; i++) if (facenb[i] == 0) facenb[i] = -(++nf);\<close>
  with \<^verbatim>\<open>ne = mesh->ne * mesh->elemlen\<close> and \<^verbatim>\<open>nf\<close> reset to 0 before the loop.
\<close>

definition facenb_step :: "nat \<Rightarrow> int list \<times> int \<Rightarrow> int list \<times> int" where
  "facenb_step i s = (case s of (fnb, k) \<Rightarrow>
     if fnb ! i = 0 then (fnb[i := - (k + 1)], k + 1) else (fnb, k))"

definition tracer_prep_facenb :: "tetmesh \<Rightarrow> mesh_fault + tetmesh" where
  "tracer_prep_facenb mesh =
     (let n = nat (ne mesh * elemlen mesh) in
      if length (facenb mesh) < n then Inl Undefined
      else (case fold facenb_step [0..<n] (facenb mesh, 0) of
              (fnb, k) \<Rightarrow> Inr (mesh\<lparr>facenb := fnb, nf := k\<rparr>)))"

text \<open>The renumbering as a function of the list: the zeros receive \<open>-(c+1), -(c+2), \<dots>\<close>.\<close>

fun renumber :: "int \<Rightarrow> int list \<Rightarrow> int list" where
  "renumber c [] = []"
| "renumber c (v # vs) = (if v = 0 then - (c + 1) # renumber (c + 1) vs else v # renumber c vs)"

definition zeros :: "int list \<Rightarrow> int" where
  "zeros vs = int (length (filter (\<lambda>v. v = 0) vs))"

definition mesh_c4 :: tetmesh where
  "mesh_c4 = mesh_init\<lparr>ne := 1, facenb := [- 7, 0, 5, 0]\<rparr>"

definition mesh_w4 :: tetmesh where
  "mesh_w4 = mesh_init\<lparr>ne := 2, facenb := [0, 2, 0, 0, 0, 1, 0, 0]\<rparr>"

subsection \<open>Effective reflection coefficient (\<^verbatim>\<open>mesh_getreff\<close>, lines 1879--1909)\<close>

text \<open>
  The value of \<^verbatim>\<open>r_fres\<close> at the angle \<^verbatim>\<open>o\<close>, written \<open>ang\<close>. The critical angle
  \<^verbatim>\<open>oc\<close> is \<^verbatim>\<open>asin(1.0 / n_in)\<close>; when it is NaN the comparison \<^verbatim>\<open>o < oc\<close> is false. The two
  quotients are written with the division of \<^typ>\<open>real\<close>; their divisors are positive
  when \<open>n_out > 0\<close> (lemma \<open>getreff_divisors_pos\<close>).
\<close>

definition getreff_fres :: "real \<Rightarrow> real \<Rightarrow> real option \<Rightarrow> real \<Rightarrow> real" where
  "getreff_fres n_in n_out oc ang =
     (let coso = cos ang in
      if (case oc of None \<Rightarrow> False | Some c \<Rightarrow> ang < c) then
        (let cosop = n_in * sin ang;
             cosop = sqrt (1 - cosop * cosop);
             tmp = (n_in * cosop - n_out * coso) / (n_in * cosop + n_out * coso);
             r_fres = 0.5 * tmp * tmp;
             tmp = (n_in * coso - n_out * cosop) / (n_in * coso + n_out * cosop)
         in r_fres + 0.5 * tmp * tmp)
      else 1)"

definition getreff_step ::
  "real \<Rightarrow> real \<Rightarrow> real option \<Rightarrow> real \<Rightarrow> nat \<Rightarrow> real \<times> real \<Rightarrow> real \<times> real" where
  "getreff_step n_in n_out oc ostep i s = (case s of (r_phi, r_j) \<Rightarrow>
     let ang = real i * ostep;
         coso = cos ang;
         r_fres = getreff_fres n_in n_out oc ang
     in (r_phi + 2 * sin ang * coso * r_fres, r_j + 3 * sin ang * coso * coso * r_fres))"

definition mesh_getreff :: "real \<Rightarrow> real \<Rightarrow> real" where
  "mesh_getreff n_in n_out =
     (let oc = (case fdiv 1 n_in of None \<Rightarrow> None | Some v \<Rightarrow> fasin v);
          ostep = pi / (2 * 1000)
      in case fold (getreff_step n_in n_out oc ostep) [0..<1000] (0, 0) of
           (r_phi, r_j) \<Rightarrow>
             let r_phi = r_phi * ostep; r_j = r_j * ostep
             in (r_phi + r_j) / (2 - r_phi + r_j))"

subsection \<open>Normalisation (\<^verbatim>\<open>mesh_normalize\<close>, lines 1761--1853)\<close>

text \<open>
  The index \<^verbatim>\<open>(i * datalen + j) * cfg->srcnum + pair\<close> of the weight accumulator, and one
  in-place update of an entry. The divisions of this function are written with the
  division of \<^typ>\<open>real\<close>; the properties below are stated for a divisor that is not 0.
\<close>

definition widx :: "int \<Rightarrow> int \<Rightarrow> int \<Rightarrow> nat \<Rightarrow> nat \<Rightarrow> int" where
  "widx datalen srcn pr i j = (int i * datalen + int j) * srcn + pr"

definition upd_at :: "(real \<Rightarrow> real) \<Rightarrow> int \<Rightarrow> real list \<Rightarrow> real list" where
  "upd_at f k w = w[nat k := f (w ! nat k)]"

text \<open>
  \<^verbatim>\<open>for (i < maxgate) for (j < datalen) weight[(i*datalen + j)*srcnum + pair] *= normalizor\<close>
\<close>

definition scale_weight :: "int \<Rightarrow> int \<Rightarrow> int \<Rightarrow> int \<Rightarrow> real \<Rightarrow> real list \<Rightarrow> real list" where
  "scale_weight mg datalen srcn pr c w =
     fold (\<lambda>i. fold (\<lambda>j. upd_at (\<lambda>v. v * c) (widx datalen srcn pr i j)) [0..<nat datalen])
       [0..<nat mg] w"

text \<open>The entries that the loops over \<open>(i, j)\<close> touch lie inside the array of length \<open>n\<close>.\<close>

definition widx_ok :: "int \<Rightarrow> int \<Rightarrow> int \<Rightarrow> int \<Rightarrow> nat \<Rightarrow> bool" where
  "widx_ok mg datalen srcn pr n \<longleftrightarrow>
     list_all (\<lambda>i. list_all (\<lambda>j. 0 \<le> widx datalen srcn pr i j \<and> widx datalen srcn pr i j < int n)
                  [0..<nat datalen]) [0..<nat mg]"

definition normalize_datalen :: "tetmesh \<Rightarrow> mcconfig \<Rightarrow> int" where
  "normalize_datalen mesh cfg =
     (if cfg_method cfg = rtBLBadouelGrid then crop0_z cfg
      else if basisorder cfg \<noteq> 0 then nn mesh else ne mesh)"

text \<open>Lines 1767--1774: the diffuse reflectance is scaled by \<^verbatim>\<open>1.f / Etotal\<close>.\<close>

definition normalize_dref :: "tetmesh \<Rightarrow> mcconfig \<Rightarrow> real \<Rightarrow> mesh_fault + tetmesh" where
  "normalize_dref mesh cfg Etotal =
     (case dref mesh of
        None \<Rightarrow> Inr mesh
      | Some d \<Rightarrow>
          if issaveref cfg = 0 then Inr mesh
          else if \<not> widx_ok (maxgate cfg) (nf mesh) 1 0 (length d) then Inl Undefined
          else Inr (mesh\<lparr>dref := Some (scale_weight (maxgate cfg) (nf mesh) 1 0 (1 / Etotal) d)\<rparr>))"

definition dref_ok :: "tetmesh \<Rightarrow> mcconfig \<Rightarrow> bool" where
  "dref_ok mesh cfg =
     (case dref mesh of
        None \<Rightarrow> True
      | Some d \<Rightarrow> issaveref cfg = 0 \<or> widx_ok (maxgate cfg) (nf mesh) 1 0 (length d))"

text \<open>
  Lines 1802--1841: the scaling factor of the flux and fluence outputs, and the weights
  after their division by the nodal or element volumes. The element loops read the volume
  of each element, its region and the region's medium; with the nodal basis, also the
  weights of its four corner nodes in every time gate.
\<close>

definition flux_refs_ok :: "tetmesh \<Rightarrow> bool" where
  "flux_refs_ok mesh \<longleftrightarrow>
     nat (ne mesh) \<le> length (evol mesh) \<and> nat (ne mesh) \<le> length (type mesh) \<and>
     list_all (\<lambda>i. 0 \<le> type mesh ! i \<and> nat (type mesh ! i) < length (med mesh)) [0..<nat (ne mesh)]"

definition flux_nodal ::
  "tetmesh \<Rightarrow> mcconfig \<Rightarrow> int \<Rightarrow> real \<Rightarrow> real \<Rightarrow> int \<Rightarrow> mesh_fault + (real list \<times> real)" where
  "flux_nodal mesh cfg datalen Eabsorb Etotal pr =
     (if \<not> (flux_refs_ok mesh
             \<and> (maxgate cfg \<le> 0 \<or> nat datalen \<le> length (nvol mesh))
             \<and> widx_ok (maxgate cfg) datalen (srcnum cfg) pr (length (weight mesh))
             \<and> list_all (\<lambda>i. list_all (\<lambda>k. list_all (\<lambda>j.
                      i * nat (elemlen mesh) + k < length (elem mesh)
                      \<and> 0 \<le> (int j * nn mesh + elem mesh ! (i * nat (elemlen mesh) + k) - 1) * srcnum cfg + pr
                      \<and> (int j * nn mesh + elem mesh ! (i * nat (elemlen mesh) + k) - 1) * srcnum cfg + pr
                          < int (length (weight mesh)))
                    [0..<nat (maxgate cfg)]) [0..<4]) [0..<nat (ne mesh)])
      then Inl Undefined
      else
        (let w = fold (\<lambda>i. fold (\<lambda>j w. if nvol mesh ! j > 0
                                        then upd_at (\<lambda>v. v / (nvol mesh ! j)) (widx datalen (srcnum cfg) pr i j) w
                                        else w) [0..<nat datalen])
                   [0..<nat (maxgate cfg)] (weight mesh);
             energydeposit =
               fold (\<lambda>i dep.
                       let energyelem =
                             fold (\<lambda>j. fold (\<lambda>k en. en + w ! nat ((int j * nn mesh
                                       + elem mesh ! (i * nat (elemlen mesh) + k) - 1) * srcnum cfg + pr))
                                     [0..<4])
                               [0..<nat (maxgate cfg)] 0
                       in dep + energyelem * (evol mesh ! i) * mua (med mesh ! nat (type mesh ! i)))
                 [0..<nat (ne mesh)] 0
         in Inr (w, Eabsorb / (Etotal * energydeposit * 0.25))))"

definition flux_elem ::
  "tetmesh \<Rightarrow> mcconfig \<Rightarrow> int \<Rightarrow> real \<Rightarrow> real \<Rightarrow> int \<Rightarrow> mesh_fault + (real list \<times> real)" where
  "flux_elem mesh cfg datalen Eabsorb Etotal pr =
     (if \<not> (flux_refs_ok mesh
             \<and> widx_ok (maxgate cfg) datalen (srcnum cfg) pr (length (weight mesh)))
      then Inl Undefined
      else
        (let energydeposit =
               fold (\<lambda>i. fold (\<lambda>j dep. dep + weight mesh ! nat (widx datalen (srcnum cfg) pr j i))
                              [0..<nat (maxgate cfg)])
                 [0..<nat datalen] 0;
             w = fold (\<lambda>i w.
                         let energyelem = evol mesh ! i * mua (med mesh ! nat (type mesh ! i))
                         in fold (\<lambda>j. upd_at (\<lambda>v. v / energyelem) (widx datalen (srcnum cfg) pr j i))
                              [0..<nat (maxgate cfg)] w)
                   [0..<nat datalen] (weight mesh)
         in Inr (w, Eabsorb / (Etotal * energydeposit))))"

text \<open>\<^verbatim>\<open>mesh_normalize(mesh, cfg, Eabsorb, Etotal, pair)\<close>: the mesh and the returned factor.\<close>

definition mesh_normalize ::
  "mmc_const \<Rightarrow> tetmesh \<Rightarrow> mcconfig \<Rightarrow> real \<Rightarrow> real \<Rightarrow> int \<Rightarrow> mesh_fault + (tetmesh \<times> real)" where
  "mesh_normalize K mesh cfg Eabsorb Etotal pr =
     (let datalen = normalize_datalen mesh cfg in
      case normalize_dref mesh cfg Etotal of
        Inl err \<Rightarrow> Inl err
      | Inr mesh \<Rightarrow>
          if seed cfg = SEED_FROM_FILE K
             \<and> (outputtype cfg = otJacobian \<or> outputtype cfg = otWL \<or> outputtype cfg = otWP) then
            (let normalizor = 1 / (DELTA_MUA K * real_of_int (nphoton cfg));
                 normalizor = (if outputtype cfg = otWL \<or> outputtype cfg = otWP then 1 / Etotal
                               else normalizor)
             in if \<not> widx_ok (maxgate cfg) datalen (srcnum cfg) pr (length (weight mesh))
                then Inl Undefined
                else Inr (mesh\<lparr>weight := scale_weight (maxgate cfg) datalen (srcnum cfg) pr normalizor
                                              (weight mesh)\<rparr>, normalizor))
          else if outputtype cfg = otEnergy then
            (let normalizor = 1 / Etotal
             in if \<not> widx_ok (maxgate cfg) datalen (srcnum cfg) pr (length (weight mesh))
                then Inl Undefined
                else Inr (mesh\<lparr>weight := scale_weight (maxgate cfg) datalen (srcnum cfg) pr normalizor
                                              (weight mesh)\<rparr>, normalizor))
          else
            (case (if cfg_method cfg = rtBLBadouelGrid
                   then (if \<not> widx_ok (maxgate cfg) datalen (srcnum cfg) pr (length (weight mesh))
                         then Inl Undefined
                         else Inr (weight mesh,
                                   1 / (Etotal * unitinmm cfg * unitinmm cfg * unitinmm cfg)))
                   else if basisorder cfg \<noteq> 0 then flux_nodal mesh cfg datalen Eabsorb Etotal pr
                   else flux_elem mesh cfg datalen Eabsorb Etotal pr) of
               Inl err \<Rightarrow> Inl err
             | Inr (w, normalizor) \<Rightarrow>
                 let normalizor = (if outputtype cfg = otFlux then normalizor / tstep cfg else normalizor)
                 in Inr (mesh\<lparr>weight := scale_weight (maxgate cfg) datalen (srcnum cfg) pr normalizor w\<rparr>,
                         normalizor)))"

definition mesh_w6 :: tetmesh where
  "mesh_w6 = mesh_init\<lparr>nn := 2, ne := 1, weight := [10, 20, 30, 40, 50, 60, 70, 80]\<rparr>"

definition cfg_w6 :: mcconfig where
  "cfg_w6 = cfg_w\<lparr>outputtype := otEnergy, srcnum := 2, maxgate := 2\<rparr>"

subsection \<open>Source and detector elements (\<^verbatim>\<open>mesh_srcdetelem\<close>, \<^verbatim>\<open>mesh_loadmedia\<close>)\<close>

text \<open>
  The first loop of \<^verbatim>\<open>mesh_srcdetelem\<close> (lines 385--396), on the two counters and the
  configuration.
\<close>

definition srcdet_count :: "int list \<Rightarrow> nat \<Rightarrow> int \<times> int \<times> mcconfig \<Rightarrow> int \<times> int \<times> mcconfig" where
  "srcdet_count ty i s = (case s of (sl, dl, cfg) \<Rightarrow>
     (case (if ty ! i = - 1
            then (sl + 1, cfg\<lparr>e0 := (if e0 cfg = 0 then int i + 1 else e0 cfg)\<rparr>)
            else (sl, cfg)) of
        (sl, cfg) \<Rightarrow>
          if ty ! i = - 2 then (sl, dl + 1, cfg\<lparr>isextdet := 1, detnum := 0\<rparr>)
          else (sl, dl, cfg)))"

text \<open>
  The second loop (lines 405--414), on the two write positions, \<^verbatim>\<open>srcelem\<close>, \<^verbatim>\<open>detelem\<close> and
  \<^verbatim>\<open>type\<close>.
\<close>

definition srcdet_record ::
  "nat \<Rightarrow> nat \<times> nat \<times> int list \<times> int list \<times> int list \<Rightarrow> nat \<times> nat \<times> int list \<times> int list \<times> int list" where
  "srcdet_record i s = (case s of (si, di, se, de, ty) \<Rightarrow>
     if ty ! i < 0 then
       (if ty ! i = - 1 then (si + 1, di, se[si := int i + 1], de, ty[i := 0])
        else if ty ! i = - 2 then (si, di + 1, se, de[di := int i + 1], ty)
        else (si, di, se, de, ty))
     else (si, di, se, de, ty))"

definition mesh_srcdetelem :: "tetmesh \<Rightarrow> mcconfig \<Rightarrow> mesh_fault + (tetmesh \<times> mcconfig)" where
  "mesh_srcdetelem mesh cfg =
     (if length (type mesh) < nat (ne mesh) then Inl Undefined
      else
        (case fold (srcdet_count (type mesh)) [0..<nat (ne mesh)] (0, 0, cfg) of
           (sl, dl, cfg) \<Rightarrow>
             let mesh = mesh\<lparr>srcelemlen := sl, detelemlen := dl\<rparr> in
             if sl > 0 \<or> dl > 0 then
               (case fold srcdet_record [0..<nat (ne mesh)]
                       (0, 0, replicate (nat sl) 0, replicate (nat dl) 0, type mesh) of
                  (si, di, se, de, ty) \<Rightarrow>
                    Inr (mesh\<lparr>srcelem := se, detelem := de, type := ty\<rparr>, cfg))
             else Inr (mesh, cfg)))"

text \<open>
  What \<^verbatim>\<open>mesh_loadmedia\<close> reads from the property file: whether the file opens, the
  region count of its header (\<^const>\<open>None\<close> when the header does not parse), and the
  property lines that parse, in order.
\<close>

datatype propfile = NoPropFile | PropFile "int option" "medium list"

definition prop_count :: "propfile \<Rightarrow> mcconfig \<Rightarrow> mesh_fault + int" where
  "prop_count file cfg =
     (if medianum cfg = 0 then
        (case file of
           NoPropFile \<Rightarrow> Inl (MESH_ERROR ''can not open media property file'')
         | PropFile None recs \<Rightarrow> Inl (MESH_ERROR ''property file has wrong format'')
         | PropFile (Some n) recs \<Rightarrow>
             if n \<le> 0 then Inl (MESH_ERROR ''property file has wrong format'') else Inr n)
      else Inr (medianum cfg - 1))"

text \<open>Lines 499--516: the medium table is allocated, medium 0 is set, and, with an
  external detector, medium \<open>prop + 1\<close> is copied from medium 0 and the regions \<open>-2\<close> are
  renumbered \<open>prop + 1\<close>.\<close>

definition remap_type :: "int \<Rightarrow> nat \<Rightarrow> int list \<Rightarrow> int list" where
  "remap_type p i ty = (if ty ! i = - 2 then ty[i := p + 1] else ty)"

definition loadmedia_extdet :: "tetmesh \<Rightarrow> mcconfig \<Rightarrow> int \<Rightarrow> mesh_fault + (medium list \<times> int list)" where
  "loadmedia_extdet mesh cfg p =
     (let size = p + 1 + isextdet cfg in
      if size < 1 then Inl Undefined
      else
        (let m = replicate (nat size) \<lparr>mua = 0, mus = 0, med_g = 0, med_n = 0\<rparr>;
             m = m[0 := \<lparr>mua = 0, mus = 0, med_g = 1, med_n = nout cfg\<rparr>]
         in if isextdet cfg \<noteq> 0 then
              (if p + 1 < 0 \<or> size \<le> p + 1 \<or> length (type mesh) < nat (ne mesh) then Inl Undefined
               else Inr (m[nat (p + 1) := m ! 0],
                         fold (remap_type p) [0..<nat (ne mesh)] (type mesh)))
            else Inr (m, type mesh)))"

text \<open>Lines 518--536: the media 1 to \<open>prop\<close> from the file, or all of \<^verbatim>\<open>cfg->prop\<close>; then
  the scaling of \<open>mua\<close> and \<open>mus\<close> by the length unit.\<close>

definition loadmedia_fill :: "propfile \<Rightarrow> mcconfig \<Rightarrow> int \<Rightarrow> medium list \<Rightarrow> mesh_fault + medium list" where
  "loadmedia_fill file cfg p m =
     (if medianum cfg = 0 then
        (case file of
           PropFile hdr recs \<Rightarrow>
             if length recs < nat p then Inl (MESH_ERROR ''property file has wrong format'')
             else Inr (fold (\<lambda>i m. m[i := recs ! (i - 1)]) [1..<Suc (nat p)] m)
         | NoPropFile \<Rightarrow> Inl (MESH_ERROR ''can not open media property file''))
      else if medianum cfg < 0 \<or> length (cfg_prop cfg) < nat (medianum cfg)
              \<or> length m < nat (medianum cfg) then Inl Undefined
      else Inr (take (nat (medianum cfg)) (cfg_prop cfg) @ drop (nat (medianum cfg)) m))"

definition loadmedia_unit :: "mcconfig \<Rightarrow> int \<Rightarrow> medium list \<Rightarrow> medium list" where
  "loadmedia_unit cfg p m =
     (if cfg_method cfg \<noteq> rtBLBadouelGrid \<and> unitinmm cfg \<noteq> 1 then
        fold (\<lambda>i m. m[i := (m ! i)\<lparr>mus := mus (m ! i) * unitinmm cfg, mua := mua (m ! i) * unitinmm cfg\<rparr>])
          [1..<Suc (nat p)] m
      else m)"

definition mesh_loadmedia :: "propfile \<Rightarrow> tetmesh \<Rightarrow> mcconfig \<Rightarrow> mesh_fault + (tetmesh \<times> mcconfig)" where
  "mesh_loadmedia file mesh cfg =
     (case prop_count file cfg of
        Inl err \<Rightarrow> Inl err
      | Inr p \<Rightarrow>
         (case loadmedia_extdet mesh cfg p of
            Inl err \<Rightarrow> Inl err
          | Inr (m, ty) \<Rightarrow>
             (case loadmedia_fill file cfg p m of
                Inl err \<Rightarrow> Inl err
              | Inr m \<Rightarrow>
                  Inr (mesh\<lparr>mesh_prop := p, med := loadmedia_unit cfg p m, type := ty\<rparr>,
                       cfg\<lparr>his_maxmedia := p\<rparr>))))"

text \<open>The 1-based numbers of the elements among the first \<open>k\<close> whose region is \<open>v\<close>.\<close>

definition region_ids :: "int list \<Rightarrow> int \<Rightarrow> nat \<Rightarrow> int list" where
  "region_ids ty v k = map (\<lambda>i. int i + 1) (filter (\<lambda>i. ty ! i = v) [0..<k])"

definition mesh_w7 :: tetmesh where
  "mesh_w7 = mesh_init\<lparr>ne := 4, type := [1, - 1, - 2, 2]\<rparr>"

definition cfg_w7 :: mcconfig where
  "cfg_w7 = cfg_w\<lparr>medianum := 3,
     cfg_prop := [\<lparr>mua = 0, mus = 0, med_g = 1, med_n = 1\<rparr>,
                  \<lparr>mua = 1 / 100, mus = 1, med_g = 9 / 10, med_n = 137 / 100\<rparr>,
                  \<lparr>mua = 1 / 50, mus = 2, med_g = 9 / 10, med_n = 137 / 100\<rparr>]\<rparr>"

text \<open>
  The same mesh with media given in \<^verbatim>\<open>cfg->prop\<close> and an ambient index \<open>1.37\<close> that is not
  the index of \<^verbatim>\<open>cfg->prop[0]\<close>, the states after \<^verbatim>\<open>mesh_srcdetelem\<close> and after
  \<^verbatim>\<open>mesh_loadmedia\<close>, and a configuration and a property file for the same media read
  from the file.
\<close>

definition cfg_c7 :: mcconfig where
  "cfg_c7 = cfg_w7\<lparr>nout := 137 / 100\<rparr>"

definition mesh_s7 :: tetmesh where
  "mesh_s7 = mesh_w7\<lparr>srcelemlen := 1, detelemlen := 1, srcelem := [2], detelem := [3],
     type := [1, 0, - 2, 2]\<rparr>"

definition cfg_s7 :: mcconfig where
  "cfg_s7 = cfg_c7\<lparr>e0 := 2, isextdet := 1, detnum := 0\<rparr>"

definition mesh_l7 :: tetmesh where
  "mesh_l7 = mesh_s7\<lparr>mesh_prop := 2,
     med := cfg_prop cfg_w7 @ [\<lparr>mua = 0, mus = 0, med_g = 1, med_n = 137 / 100\<rparr>],
     type := [1, 0, 3, 2]\<rparr>"

definition cfg_f7 :: mcconfig where
  "cfg_f7 = cfg_w\<lparr>nout := 137 / 100\<rparr>"

definition file_w7 :: propfile where
  "file_w7 = PropFile (Some 2)
     [\<lparr>mua = 1 / 100, mus = 1, med_g = 9 / 10, med_n = 137 / 100\<rparr>,
      \<lparr>mua = 1 / 50, mus = 2, med_g = 9 / 10, med_n = 137 / 100\<rparr>]"

subsection \<open>Boundary node volumes (\<^verbatim>\<open>tracer_prep\<close>, lines 1093--1135)\<close>

text \<open>
  The table \<^verbatim>\<open>Reff\<close> (lines 1094--1109): \<open>prop + 1\<close> zeros; with \<^verbatim>\<open>cfg->isreflect\<close>, entry
  \<open>i\<close> from 1 to \<open>prop\<close> is copied from the first earlier medium of the same refractive
  index and, if it is still 0, computed by \<^const>\<open>mesh_getreff\<close>.
\<close>

definition reff_copy :: "medium list \<Rightarrow> nat \<Rightarrow> real list \<Rightarrow> real list" where
  "reff_copy md i R =
     (case find (\<lambda>j. med_n (md ! j) = med_n (md ! i)) [1..<i] of
        Some j \<Rightarrow> R[i := R ! j]
      | None \<Rightarrow> R)"

definition reff_step :: "medium list \<Rightarrow> nat \<Rightarrow> real list \<Rightarrow> real list" where
  "reff_step md i R =
     (let R = reff_copy md i R
      in if R ! i = 0 then R[i := mesh_getreff (med_n (md ! i)) (med_n (md ! 0))] else R)"

definition reff_table :: "tetmesh \<Rightarrow> mcconfig \<Rightarrow> mesh_fault + real list" where
  "reff_table mesh cfg =
     (if mesh_prop mesh + 1 < 0 then Inl Undefined
      else if isreflect cfg \<noteq> 0 then
        (if 1 \<le> mesh_prop mesh \<and> length (med mesh) < nat (mesh_prop mesh + 1) then Inl Undefined
         else Inr (fold (reff_step (med mesh)) [1..<Suc (nat (mesh_prop mesh))]
                     (replicate (nat (mesh_prop mesh + 1)) 0)))
      else Inr (replicate (nat (mesh_prop mesh + 1)) 0))"

text \<open>
  Lines 1118--1122, one node \<open>k\<close> of the face \<open>j\<close> of element \<open>i\<close>:
  \<^verbatim>\<open>nid = elems[out[ifaceorder[j]][k]] - 1\<close>, and \<^verbatim>\<open>nvol[nid]\<close> is multiplied by
  \<^verbatim>\<open>-(2 / (1 + Reff[type[i]]))\<close> when it is positive and the region of the element is not
  negative. The conjunction reads \<^verbatim>\<open>type[i]\<close> only when \<^verbatim>\<open>nvol[nid] > 0\<close>.
\<close>

definition face_node :: "tetmesh \<Rightarrow> nat \<Rightarrow> nat \<Rightarrow> nat \<Rightarrow> int" where
  "face_node mesh i j k = elem mesh ! (i * nat (elemlen mesh) + out ! (ifaceorder ! j) ! k) - 1"

definition nvol_scale ::
  "tetmesh \<Rightarrow> real list \<Rightarrow> nat \<Rightarrow> nat \<Rightarrow> nat \<Rightarrow> mesh_fault + real list \<Rightarrow> mesh_fault + real list" where
  "nvol_scale mesh R i j k s =
     (case s of
        Inl err \<Rightarrow> Inl err
      | Inr nv \<Rightarrow>
          if 4 \<le> j \<or> length (elem mesh) \<le> i * nat (elemlen mesh) + out ! (ifaceorder ! j) ! k
          then Inl Undefined
          else
            (let nid = face_node mesh i j k
             in if nid < 0 \<or> int (length nv) \<le> nid then Inl Undefined
                else if nv ! nat nid > 0 then
                  (if length (type mesh) \<le> i then Inl Undefined
                   else if type mesh ! i \<ge> 0 then
                     (if length R \<le> nat (type mesh ! i) then Inl Undefined
                      else Inr (nv[nat nid := nv ! nat nid * - (2 / (1 + R ! nat (type mesh ! i)))]))
                   else Inr nv)
                else Inr nv))"

text \<open>Lines 1116--1117: the faces \<open>j\<close> of element \<open>i\<close> with \<^verbatim>\<open>enb[j] == 0\<close>.\<close>

definition nvol_face ::
  "tetmesh \<Rightarrow> real list \<Rightarrow> nat \<Rightarrow> nat \<Rightarrow> mesh_fault + real list \<Rightarrow> mesh_fault + real list" where
  "nvol_face mesh R i j s =
     (case s of
        Inl err \<Rightarrow> Inl err
      | Inr nv \<Rightarrow>
          if length (facenb mesh) \<le> i * nat (elemlen mesh) + j then Inl Undefined
          else if facenb mesh ! (i * nat (elemlen mesh) + j) = 0
          then fold (nvol_scale mesh R i j) [0..<3] (Inr nv)
          else Inr nv)"

definition nvol_elem ::
  "tetmesh \<Rightarrow> real list \<Rightarrow> nat \<Rightarrow> mesh_fault + real list \<Rightarrow> mesh_fault + real list" where
  "nvol_elem mesh R i s = fold (nvol_face mesh R i) [0..<nat (elemlen mesh)] s"

text \<open>Lines 1128--1132: the sign is removed.\<close>

definition nvol_abs :: "nat \<Rightarrow> real list \<Rightarrow> real list" where
  "nvol_abs i nv = (if nv ! i < 0 then nv[i := - (nv ! i)] else nv)"

definition tracer_prep_nvol :: "tetmesh \<Rightarrow> mcconfig \<Rightarrow> mesh_fault + tetmesh" where
  "tracer_prep_nvol mesh cfg =
     (if isnormalized cfg = 1 \<and> cfg_method cfg \<noteq> rtBLBadouelGrid \<and> basisorder cfg \<noteq> 0 then
        (case reff_table mesh cfg of
           Inl err \<Rightarrow> Inl err
         | Inr R \<Rightarrow>
            (if length (nvol mesh) < nat (nn mesh) then Inl Undefined
             else
               (case fold (nvol_elem mesh R) [0..<nat (ne mesh)] (Inr (nvol mesh)) of
                  Inl err \<Rightarrow> Inl err
                | Inr nv \<Rightarrow> Inr (mesh\<lparr>nvol := fold nvol_abs [0..<nat (nn mesh)] nv\<rparr>))))
      else Inr mesh)"

text \<open>
  Element \<open>i\<close> reaches node \<open>v\<close>: its region is not negative and one of its faces without
  neighbour has \<open>v\<close> among its three nodes. The first such element in the order of the
  loop, and the effective reflectance of a region.
\<close>

definition exposed_node :: "tetmesh \<Rightarrow> nat \<Rightarrow> nat \<Rightarrow> bool" where
  "exposed_node mesh v i =
     (type mesh ! i \<ge> 0
      \<and> list_ex (\<lambda>j. facenb mesh ! (i * nat (elemlen mesh) + j) = 0
                    \<and> list_ex (\<lambda>k. face_node mesh i j k = int v) [0..<3])
          [0..<nat (elemlen mesh)])"

definition first_exposed :: "tetmesh \<Rightarrow> nat \<Rightarrow> nat option" where
  "first_exposed mesh v = find (exposed_node mesh v) [0..<nat (ne mesh)]"

definition region_reff :: "tetmesh \<Rightarrow> mcconfig \<Rightarrow> int \<Rightarrow> real" where
  "region_reff mesh cfg r =
     (if isreflect cfg \<noteq> 0 \<and> 1 \<le> r
      then mesh_getreff (med_n (med mesh ! nat r)) (med_n (med mesh ! 0)) else 0)"

text \<open>
  The state of the loop inside one element: of the nodes of \<open>H\<close>, those of positive
  volume at the start of the element are multiplied by \<open>- c\<close>, every other volume is as
  at the start; \<open>el\<close> says that the region is not negative and \<open>rng\<close> that it is inside
  the table. The nodes of the face \<open>j\<close> of element \<open>i\<close> when it has no neighbour.
\<close>

definition marked :: "real list \<Rightarrow> bool \<Rightarrow> real \<Rightarrow> bool \<Rightarrow> nat set \<Rightarrow> real list \<Rightarrow> bool" where
  "marked nvA el c rng H nv =
     (length nv = length nvA
      \<and> (\<forall>v < length nvA. nv ! v = (if 0 < nvA ! v \<and> el \<and> v \<in> H then nvA ! v * - c else nvA ! v))
      \<and> (el \<and> (\<exists>v \<in> H. v < length nvA \<and> 0 < nvA ! v) \<longrightarrow> rng))"

definition face_hits :: "tetmesh \<Rightarrow> nat \<Rightarrow> nat \<Rightarrow> nat set" where
  "face_hits mesh i j =
     {u. facenb mesh ! (i * nat (elemlen mesh) + j) = 0 \<and> (\<exists>k < 3. face_node mesh i j k = int u)}"

text \<open>Two tetrahedra glued along the face of nodes 2, 3, 4, without reflection.\<close>

definition mesh_w8 :: tetmesh where
  "mesh_w8 = mesh_init\<lparr>nn := 5, ne := 2, mesh_prop := 1,
     elem := [1, 2, 3, 4, 2, 3, 4, 5], type := [1, 1],
     facenb := [0, 0, 0, 2, 1, 0, 0, 0],
     med := [\<lparr>mua = 0, mus = 0, med_g = 1, med_n = 1\<rparr>,
             \<lparr>mua = 1 / 100, mus = 1, med_g = 9 / 10, med_n = 137 / 100\<rparr>],
     nvol := [1, 2, 2, 2, 1]\<rparr>"

definition cfg_w8 :: mcconfig where
  "cfg_w8 = cfg_w\<lparr>isreflect := 0\<rparr>"

text \<open>
  A mesh on which the block stays inside its arrays: the table \<^verbatim>\<open>Reff\<close> can be filled,
  \<^verbatim>\<open>nvol\<close> has \<open>nn\<close> entries, and every face without neighbour lies in the arrays, names
  stored nodes and belongs to an element of a region up to \<open>prop\<close>.
\<close>

definition nvol_visit_ok :: "tetmesh \<Rightarrow> nat \<Rightarrow> nat \<Rightarrow> nat \<Rightarrow> bool" where
  "nvol_visit_ok mesh i j k \<longleftrightarrow>
     j < 4 \<and> i * nat (elemlen mesh) + out ! (ifaceorder ! j) ! k < length (elem mesh)
     \<and> 0 \<le> face_node mesh i j k \<and> face_node mesh i j k < int (length (nvol mesh))"

definition nvol_face_ok :: "tetmesh \<Rightarrow> nat \<Rightarrow> nat \<Rightarrow> bool" where
  "nvol_face_ok mesh i j \<longleftrightarrow>
     i * nat (elemlen mesh) + j < length (facenb mesh)
     \<and> (if facenb mesh ! (i * nat (elemlen mesh) + j) = 0
         then i < length (type mesh) \<and> type mesh ! i \<le> mesh_prop mesh
              \<and> list_all (nvol_visit_ok mesh i j) [0..<3]
         else True)"

definition nvol_wf :: "tetmesh \<Rightarrow> mcconfig \<Rightarrow> bool" where
  "nvol_wf mesh cfg \<longleftrightarrow>
     0 \<le> mesh_prop mesh + 1
     \<and> (if isreflect cfg \<noteq> 0 \<and> 1 \<le> mesh_prop mesh
         then nat (mesh_prop mesh + 1) \<le> length (med mesh) else True)
     \<and> nat (nn mesh) \<le> length (nvol mesh)
     \<and> list_all (\<lambda>i. list_all (nvol_face_ok mesh i) [0..<nat (elemlen mesh)]) [0..<nat (ne mesh)]"

text \<open>
  A wide-field detector: element 1 of the two tetrahedra has region \<open>-2\<close> in the input and
  the media are given in \<^verbatim>\<open>cfg->prop\<close> (\<open>prop = 1\<close>); the states after
  \<^verbatim>\<open>mesh_srcdetelem\<close> and after \<^verbatim>\<open>mesh_loadmedia\<close>, where element 1 has region
  \<open>prop + 1 = 2\<close> and the medium table has three entries.
\<close>

definition mesh_r8 :: tetmesh where
  "mesh_r8 = mesh_w8\<lparr>mesh_prop := 0, type := [- 2, 1], med := []\<rparr>"

definition cfg_r8 :: mcconfig where
  "cfg_r8 = cfg_w8\<lparr>medianum := 2,
     cfg_prop := [\<lparr>mua = 0, mus = 0, med_g = 1, med_n = 1\<rparr>,
                  \<lparr>mua = 1 / 100, mus = 1, med_g = 9 / 10, med_n = 137 / 100\<rparr>]\<rparr>"

definition mesh_d8 :: tetmesh where
  "mesh_d8 = mesh_r8\<lparr>srcelemlen := 0, detelemlen := 1, srcelem := [], detelem := [1]\<rparr>"

definition cfg_d8 :: mcconfig where
  "cfg_d8 = cfg_r8\<lparr>isextdet := 1, detnum := 0\<rparr>"

definition mesh_c8 :: tetmesh where
  "mesh_c8 = mesh_d8\<lparr>mesh_prop := 1,
     med := [\<lparr>mua = 0, mus = 0, med_g = 1, med_n = 1\<rparr>,
             \<lparr>mua = 1 / 100, mus = 1, med_g = 9 / 10, med_n = 137 / 100\<rparr>,
             \<lparr>mua = 0, mus = 0, med_g = 1, med_n = 1\<rparr>],
     type := [2, 1]\<rparr>"

definition cfg_c8 :: mcconfig where
  "cfg_c8 = cfg_d8\<lparr>his_maxmedia := 1\<rparr>"

subsection \<open>\<^verbatim>\<open>tracer_init\<close>, \<^verbatim>\<open>tracer_build\<close> and \<^verbatim>\<open>tracer_prep\<close>\<close>

text \<open>
  The ray tracer: its mesh (\<^const>\<open>None\<close> for a \<^verbatim>\<open>NULL\<close> pointer), its method, and the three
  arrays \<^verbatim>\<open>d\<close>, \<^verbatim>\<open>m\<close>, \<^verbatim>\<open>n\<close>, each \<^const>\<open>None\<close> for \<^verbatim>\<open>NULL\<close> or the number of
  \<^verbatim>\<open>float3\<close> entries allocated. The vectors that \<^verbatim>\<open>tracer_build\<close> stores in the arrays
  are read by the photon transport only and are not represented.
\<close>

record raytracer =
  tr_mesh :: "tetmesh option"
  tr_method :: method_t
  tr_d :: "nat option"
  tr_m :: "nat option"
  tr_n :: "nat option"

text \<open>
  \<^verbatim>\<open>tracer_build\<close> reads the four node numbers of every element at \<^verbatim>\<open>elems[(i << 2) + \<dots>]\<close>
  and the nodes they name.
\<close>

definition build_refs_ok :: "tetmesh \<Rightarrow> bool" where
  "build_refs_ok mesh \<longleftrightarrow>
     list_all (\<lambda>q. q < length (elem mesh) \<and> 1 \<le> elem mesh ! q
                 \<and> nat (elem mesh ! q) \<le> length (node mesh))
       [0..<4 * nat (ne mesh)]"

text \<open>
  \<^verbatim>\<open>tracer_build\<close> (lines 1246--1364): nothing is done when one of the arrays is there or
  no mesh is attached; a mesh without nodes, elements, neighbours or media is an error;
  otherwise the arrays of the method are allocated and filled. An empty list stands for a
  \<^verbatim>\<open>NULL\<close> array of the mesh, as in \<^const>\<open>mesh_init\<close>. \<^verbatim>\<open>calloc\<close> is taken to return an
  array; for a size of 0 the C standard lets it return \<^verbatim>\<open>NULL\<close>, so the statements below
  are made for meshes with \<open>ne > 0\<close>.
\<close>

definition tracer_build :: "raytracer \<Rightarrow> mesh_fault + raytracer" where
  "tracer_build tracer =
     (case tr_mesh tracer of
        None \<Rightarrow> Inr tracer
      | Some mesh \<Rightarrow>
          if \<not> (tr_d tracer = None \<and> tr_m tracer = None \<and> tr_n tracer = None) then Inr tracer
          else if node mesh = [] \<or> elem mesh = [] \<or> facenb mesh = [] \<or> med mesh = []
          then Inl (MESH_ERROR ''mesh is missing'')
          else if tr_method tracer = rtPlucker then
            (if build_refs_ok mesh
             then Inr (tracer\<lparr>tr_d := Some (nat (ne mesh * 6)), tr_m := Some (nat (ne mesh * 6)),
                              tr_n := Some (nat (ne mesh * 4))\<rparr>)
             else Inl Undefined)
          else if tr_method tracer = rtHavel \<or> tr_method tracer = rtBadouel then
            (if build_refs_ok mesh
             then Inr (tracer\<lparr>tr_d := None, tr_m := Some (nat (ne mesh * 12))\<rparr>)
             else Inl Undefined)
          else if tr_method tracer = rtBLBadouel \<or> tr_method tracer = rtBLBadouelGrid then
            (if build_refs_ok mesh
             then Inr (tracer\<lparr>tr_d := None, tr_n := Some (nat (ne mesh * 4))\<rparr>)
             else Inl Undefined)
          else Inr tracer)"

text \<open>
  The scan of lines 1075--1077: \<^verbatim>\<open>mesh_initelem\<close>, and the error when it returns 1.
\<close>

definition source_scan ::
  "mmc_const \<Rightarrow> raytracer \<Rightarrow> tetmesh \<Rightarrow> mcconfig \<Rightarrow> mesh_fault + (raytracer \<times> mcconfig)" where
  "source_scan K tracer mesh cfg =
     (case mesh_initelem K mesh cfg of
        Inl err \<Rightarrow> Inl err
      | Inr (r, cfg) \<Rightarrow>
          if r \<noteq> 0 then Inl (MESH_ERROR ''initial element does not enclose the source!'')
          else Inr (tracer, cfg))"

text \<open>
  Lines 1064--1083 of \<^verbatim>\<open>tracer_prep\<close>. Line 1065 reads \<^verbatim>\<open>tracer->mesh->ne\<close> before the
  test of \<^verbatim>\<open>tracer->mesh\<close>. The source is tested in the \<^verbatim>\<open>else if\<close> of the test that
  the three arrays are \<^verbatim>\<open>NULL\<close>.
\<close>

definition tracer_prep_source ::
  "mmc_const \<Rightarrow> raytracer \<Rightarrow> mcconfig \<Rightarrow> mesh_fault + (raytracer \<times> mcconfig)" where
  "tracer_prep_source K tracer cfg =
     (case tr_mesh tracer of
        None \<Rightarrow> Inl Undefined
      | Some mesh \<Rightarrow>
          if tr_n tracer = None \<and> tr_m tracer = None \<and> tr_d tracer = None then
            (case tracer_build tracer of
               Inl err \<Rightarrow> Inl err
             | Inr tracer \<Rightarrow> Inr (tracer, cfg))
          else if srctype cfg = stPencil \<or> srctype cfg = stIsotropic
                  \<or> srctype cfg = stCone \<or> srctype cfg = stArcSin then
            (if e0 cfg \<le> 0 then source_scan K tracer mesh cfg
             else
               (case mesh_barycentric (e0 cfg) (srcpos cfg) mesh of
                  Inl err \<Rightarrow> Inl err
                | Inr (r, b) \<Rightarrow>
                    if r \<noteq> 0 then source_scan K tracer mesh (cfg\<lparr>bary0 := b\<rparr>)
                    else Inr (tracer, cfg\<lparr>bary0 := b\<rparr>)))
          else Inr (tracer, cfg))"

text \<open>
  \<^verbatim>\<open>tracer_init\<close> (lines 1044--1051) clears the three arrays, attaches the mesh, sets the
  method and calls \<^verbatim>\<open>tracer_build\<close>.
\<close>

definition tracer_init :: "tetmesh option \<Rightarrow> method_t \<Rightarrow> mesh_fault + raytracer" where
  "tracer_init pmesh methodid =
     tracer_build \<lparr>tr_mesh = pmesh, tr_method = methodid, tr_d = None, tr_m = None, tr_n = None\<rparr>"

text \<open>
  \<^verbatim>\<open>tracer_prep\<close> (lines 1064--1233): the source test, the correction of the boundary node
  volumes, the numbering of the boundary faces, and the array \<^verbatim>\<open>dref\<close>: freed, and
  allocated again with \<open>nf * srcnum * maxgate\<close> zeros under \<^verbatim>\<open>cfg->issaveref\<close>. The mesh of
  this theory has no edge or face regions of interest (\<^verbatim>\<open>edgeroi\<close> and \<^verbatim>\<open>faceroi\<close> are
  \<^verbatim>\<open>NULL\<close>, as \<^verbatim>\<open>mesh_init\<close> leaves them), so lines 1138--1215 do nothing. Without
  \<^verbatim>\<open>cfg->issaveref\<close> the C pointer \<^verbatim>\<open>dref\<close> is left at the freed array and is not read
  again; it is \<^const>\<open>None\<close> here.
\<close>

definition tracer_prep ::
  "mmc_const \<Rightarrow> raytracer \<Rightarrow> mcconfig \<Rightarrow> mesh_fault + (raytracer \<times> mcconfig)" where
  "tracer_prep K tracer cfg =
     (case tracer_prep_source K tracer cfg of
        Inl err \<Rightarrow> Inl err
      | Inr (tracer, cfg) \<Rightarrow>
          (case tr_mesh tracer of
             None \<Rightarrow> Inl Undefined
           | Some mesh \<Rightarrow>
               (case tracer_prep_nvol mesh cfg of
                  Inl err \<Rightarrow> Inl err
                | Inr mesh \<Rightarrow>
                    (case tracer_prep_facenb mesh of
                       Inl err \<Rightarrow> Inl err
                     | Inr mesh \<Rightarrow>
                         Inr (tracer\<lparr>tr_mesh := Some (mesh\<lparr>dref :=
                                (if issaveref cfg \<noteq> 0
                                 then Some (replicate (nat (nf mesh * srcnum cfg * maxgate cfg)) 0)
                                 else None)\<rparr>)\<rparr>, cfg)))))"

text \<open>
  The unit tetrahedron as a complete mesh, and a pencil source at \<open>(5, 5, 5)\<close> outside of
  it, with no initial element and with the initial element 1.
\<close>

definition mesh_c9 :: tetmesh where
  "mesh_c9 = mesh_w2\<lparr>mesh_prop := 1, facenb := [0, 0, 0, 0],
     med := [\<lparr>mua = 0, mus = 0, med_g = 1, med_n = 1\<rparr>,
             \<lparr>mua = 1 / 100, mus = 1, med_g = 9 / 10, med_n = 137 / 100\<rparr>],
     evol := [1 / 6], nvol := [1 / 24, 1 / 24, 1 / 24, 1 / 24]\<rparr>"

definition cfg_c9 :: mcconfig where
  "cfg_c9 = cfg_w\<lparr>srcpos := (5, 5, 5)\<rparr>"

section \<open>Element and nodal volumes\<close>

lemma tet_vol6_triple:
  "tet_vol6 a b c d = - vec_dot3 (vec_diff3 a b) (vec_cross3 (vec_diff3 a c) (vec_diff3 a d))"
  by (cases a; cases b; cases c; cases d)
     (simp add: tet_vol6_def vec_dot3_def vec_cross3_def vec_diff3_def Let_def algebra_simps)

lemma length_fold_add_at:
  "length (fold (\<lambda>j nv. nv[idx j := nv ! idx j + c]) js (nv :: real list)) = length nv"
  by (induction js arbitrary: nv) simp_all

lemma nth_fold_add_at:
  fixes nv :: "real list"
  assumes "n < length nv"
  shows "fold (\<lambda>j nv. nv[idx j := nv ! idx j + c]) [0..<m] nv ! n =
         nv ! n + (\<Sum>j < m. if idx j = n then c else 0)"
proof (induction m)
  case 0
  show ?case by simp
next
  case (Suc m)
  let ?f = "\<lambda>j nv. nv[idx j := nv ! idx j + c]"
  let ?w = "fold ?f [0..<m] nv"
  have len: "length ?w = length nv" by (rule length_fold_add_at)
  have "fold ?f [0..<Suc m] nv = ?w[idx m := ?w ! idx m + c]" by simp
  then have "fold ?f [0..<Suc m] nv ! n = (if idx m = n then ?w ! n + c else ?w ! n)"
    using assms len by (simp add: nth_list_update)
  then show ?case using Suc by simp
qed

lemma getvolume_ok_index:
  assumes "getvolume_ok mesh" "i < nat (ne mesh)" "j < nat (elemlen mesh)"
  shows "i * nat (elemlen mesh) + j < length (elem mesh)"
proof -
  have "i * nat (elemlen mesh) + j < Suc i * nat (elemlen mesh)" using assms(3) by simp
  also have "\<dots> \<le> nat (ne mesh) * nat (elemlen mesh)"
    using assms(2) by (intro mult_le_mono1) simp
  also have "\<dots> \<le> length (elem mesh)" using assms(1) by (simp add: getvolume_ok_def)
  finally show ?thesis .
qed

lemma getvolume_ok_L4: "getvolume_ok mesh \<Longrightarrow> 4 \<le> nat (elemlen mesh)"
  unfolding getvolume_ok_def by linarith

lemma getvolume_ok_corner:
  assumes "getvolume_ok mesh" "i < nat (ne mesh)" "j < 4"
  shows "1 \<le> elem_at mesh i j \<and> elem_at mesh i j \<le> nn mesh"
proof -
  have "j < (if type mesh ! i = 0 then 4 else nat (elemlen mesh))"
    using assms(3) getvolume_ok_L4 [OF assms(1)] by simp
  then show ?thesis
    using assms(1,2) by (simp add: getvolume_ok_def list_all_iff elem_at_def)
qed

lemma getvolume_ok_all:
  assumes "getvolume_ok mesh" "i < nat (ne mesh)" "type mesh ! i \<noteq> 0" "j < nat (elemlen mesh)"
  shows "1 \<le> elem_at mesh i j \<and> elem_at mesh i j \<le> nn mesh"
  using assms by (simp add: getvolume_ok_def list_all_iff elem_at_def)

lemma swap23_swap23: "swap23 (swap23 j) = j"
  by (simp add: swap23_def)

lemma swap23_less: "4 \<le> L \<Longrightarrow> swap23 j < L \<longleftrightarrow> j < L"
  by (auto simp: swap23_def)

lemma sum_swap23:
  fixes g :: "nat \<Rightarrow> real"
  assumes "4 \<le> L"
  shows "(\<Sum>j < L. g (swap23 j)) = (\<Sum>j < L. g j)"
  by (rule sum.reindex_bij_witness [of _ swap23 swap23])
     (simp_all add: swap23_swap23 swap23_less [OF assms])

lemma getvolume_elem_result:
  assumes ok: "getvolume_ok mesh" and k: "k < nat (ne mesh)"
    and el: "length el = length (elem mesh)"
    and orig: "\<forall>j < nat (elemlen mesh). el ! (k * nat (elemlen mesh) + j) = elem_at mesh k j"
    and ev: "length ev = nat (ne mesh)" and nv: "length nv = nat (nn mesh)"
  shows "\<exists>nv'. getvolume_elem mesh k (el, ev, nv) =
           ((if elem_vol6 mesh k < 0
             then (el[k * nat (elemlen mesh) + 3 := elem_at mesh k 2])
                    [k * nat (elemlen mesh) + 2 := elem_at mesh k 3]
             else el), ev[k := fixed_vol mesh k], nv')
         \<and> length nv' = length nv
         \<and> (\<forall>n < length nv. nv' ! n = nv ! n + node_share mesh k n)"
proof -
  define L where "L = nat (elemlen mesh)"
  define b where "b = k * L"
  define v where "v = elem_vol6 mesh k"
  define el' where "el' = (if v < 0 then (el[b + 3 := elem_at mesh k 2])[b + 2 := elem_at mesh k 3] else el)"
  define c where "c = fixed_vol mesh k * (1 / 4)"
  have quarter: "(0.25 :: real) = 1 / 4" by simp
  have L4: "4 \<le> L" using getvolume_ok_L4 [OF ok] by (simp add: L_def)
  have o: "el ! (b + j) = elem_at mesh k j" if "j < L" for j
    using orig that by (simp add: L_def b_def)
  have o0: "el ! (b + 0) = elem_at mesh k 0" and o1: "el ! (b + 1) = elem_at mesh k 1"
    and o2: "el ! (b + 2) = elem_at mesh k 2" and o3: "el ! (b + 3) = elem_at mesh k 3"
    using o [of 0] o [of 1] o [of 2] o [of 3] L4 by simp_all
  have inb: "b + j < length el" if "j < L" for j
    using getvolume_ok_index [OF ok k, of j] that el by (simp add: L_def b_def)
  have fv: "(if v < 0 then - v else v) * (1 / 6) = fixed_vol mesh k"
    by (simp add: fixed_vol_def v_def abs_if)
  have evk: "ev[k := fixed_vol mesh k] ! k = fixed_vol mesh k"
    using k ev by simp
  have el'_nth: "el' ! (b + j) = (if v < 0 then elem_at mesh k (swap23 j) else elem_at mesh k j)"
    if "j < L" for j
  proof (cases "v < 0")
    case True
    have "((el[b + 3 := elem_at mesh k 2])[b + 2 := elem_at mesh k 3]) ! (b + j) =
          elem_at mesh k (swap23 j)"
      using inb [of j] inb [of 2] inb [of 3] L4 that o [of j]
      by (simp add: nth_list_update swap23_def)
    with True show ?thesis by (simp add: el'_def)
  next
    case False
    then show ?thesis using o [OF that] by (simp add: el'_def)
  qed
  let ?step = "\<lambda>j nv. nv[nat (el' ! (b + j) - 1) := nv ! nat (el' ! (b + j) - 1) + c]"
  define nv' where "nv' = (if type mesh ! k = 0 then nv else fold ?step [0..<L] nv)"
  have res: "getvolume_elem mesh k (el, ev, nv) = (el', ev[k := fixed_vol mesh k], nv')"
    unfolding getvolume_elem_def Let_def prod.case
    unfolding L_def [symmetric] b_def [symmetric]
    unfolding o0 o1 o2 o3
    unfolding node_at_def [symmetric] elem_vol6_def [symmetric] v_def [symmetric]
    unfolding fv evk quarter
    by (simp add: el'_def nv'_def c_def)
  have len: "length nv' = length nv"
    by (simp add: nv'_def length_fold_add_at)
  have val: "nv' ! n = nv ! n + node_share mesh k n" if n: "n < length nv" for n
  proof (cases "type mesh ! k = 0")
    case True
    then show ?thesis by (simp add: nv'_def node_share_def)
  next
    case False
    have rng: "1 \<le> elem_at mesh k j \<and> elem_at mesh k j \<le> nn mesh" if "j < L" for j
      using getvolume_ok_all [OF ok k False] that by (simp add: L_def)
    have sj: "swap23 j < L" if "j < L" for j using that L4 by (simp add: swap23_def)
    let ?g = "\<lambda>j. if elem_at mesh k j = int n + 1 then c else 0"
    have hit: "(if nat (el' ! (b + j) - 1) = n then c else 0) =
               (if v < 0 then ?g (swap23 j) else ?g j)" if "j < L" for j
    proof -
      have "(nat (e - 1) = n) = (e = int n + 1)" if "1 \<le> e" for e :: int
        using that by auto
      then show ?thesis
        using el'_nth [OF \<open>j < L\<close>] rng [OF \<open>j < L\<close>] rng [OF sj [OF \<open>j < L\<close>]] by simp
    qed
    have "nv' ! n = nv ! n + (\<Sum>j < L. if nat (el' ! (b + j) - 1) = n then c else 0)"
      using False nth_fold_add_at [OF n, of "\<lambda>j. nat (el' ! (b + j) - 1)" c L]
      by (simp add: nv'_def)
    also have "(\<Sum>j < L. if nat (el' ! (b + j) - 1) = n then c else 0) =
               (\<Sum>j < L. if v < 0 then ?g (swap23 j) else ?g j)"
      by (rule sum.cong) (simp_all add: hit)
    also have "\<dots> = (\<Sum>j < L. ?g j)"
    proof (cases "v < 0")
      case True
      then show ?thesis using sum_swap23 [OF L4, of ?g] by simp
    next
      case False
      then show ?thesis by simp
    qed
    also have "\<dots> = node_share mesh k n"
      unfolding node_share_def L_def c_def using False by simp
    finally show ?thesis .
  qed
  show ?thesis
    using res len val
    by (simp add: el'_def v_def b_def L_def)
qed

lemma flat_index_unique:
  fixes L :: nat
  assumes "j < L" "j' < L" "i * L + j = i' * L + j'"
  shows "i = i' \<and> j = j'"
proof -
  have "(i * L + j) div L = i" "(i' * L + j') div L = i'" using assms(1,2) by simp_all
  then have "i = i'" using assms(3) by simp
  then show ?thesis using assms(3) by simp
qed

lemma getvolume_fold:
  assumes ok: "getvolume_ok mesh" and kN: "k \<le> nat (ne mesh)"
  shows "\<exists>el ev nv.
     fold (getvolume_elem mesh) [0..<k]
       (elem mesh, replicate (nat (ne mesh)) 0, replicate (nat (nn mesh)) 0) = (el, ev, nv)
     \<and> length el = length (elem mesh)
     \<and> (\<forall>i < nat (ne mesh). \<forall>j < nat (elemlen mesh).
           el ! (i * nat (elemlen mesh) + j) = (if i < k then fixed_at mesh i j else elem_at mesh i j))
     \<and> length ev = nat (ne mesh)
     \<and> (\<forall>i < nat (ne mesh). ev ! i = (if i < k then fixed_vol mesh i else 0))
     \<and> length nv = nat (nn mesh)
     \<and> (\<forall>n < nat (nn mesh). nv ! n = (\<Sum>i < k. node_share mesh i n))"
  using kN
proof (induction k)
  case 0
  show ?case by (simp add: elem_at_def)
next
  case (Suc k)
  define L where "L = nat (elemlen mesh)"
  define N where "N = nat (ne mesh)"
  have k: "k < nat (ne mesh)" using Suc.prems by simp
  have L4: "4 \<le> L" using getvolume_ok_L4 [OF ok] by (simp add: L_def)
  from Suc.IH k obtain el ev nv where
    st: "fold (getvolume_elem mesh) [0..<k]
           (elem mesh, replicate (nat (ne mesh)) 0, replicate (nat (nn mesh)) 0) = (el, ev, nv)"
    and lel: "length el = length (elem mesh)"
    and el: "\<forall>i < N. \<forall>j < L. el ! (i * L + j) = (if i < k then fixed_at mesh i j else elem_at mesh i j)"
    and lev: "length ev = nat (ne mesh)"
    and ev: "\<forall>i < N. ev ! i = (if i < k then fixed_vol mesh i else 0)"
    and lnv: "length nv = nat (nn mesh)"
    and nv: "\<forall>n < nat (nn mesh). nv ! n = (\<Sum>i < k. node_share mesh i n)"
    unfolding L_def N_def by auto
  have orig: "\<forall>j < nat (elemlen mesh). el ! (k * nat (elemlen mesh) + j) = elem_at mesh k j"
    using el k by (simp add: L_def N_def)
  from getvolume_elem_result [OF ok k lel orig lev lnv] obtain nv' where
    res: "getvolume_elem mesh k (el, ev, nv) =
           ((if elem_vol6 mesh k < 0
             then (el[k * L + 3 := elem_at mesh k 2])[k * L + 2 := elem_at mesh k 3]
             else el), ev[k := fixed_vol mesh k], nv')"
    and lnv': "length nv' = length nv"
    and nv': "\<forall>n < length nv. nv' ! n = nv ! n + node_share mesh k n"
    unfolding L_def by blast
  define el' where "el' = (if elem_vol6 mesh k < 0
             then (el[k * L + 3 := elem_at mesh k 2])[k * L + 2 := elem_at mesh k 3] else el)"
  have fold_eq: "fold (getvolume_elem mesh) [0..<Suc k]
       (elem mesh, replicate (nat (ne mesh)) 0, replicate (nat (nn mesh)) 0) =
       (el', ev[k := fixed_vol mesh k], nv')"
    using st res by (simp add: el'_def)
  have lel': "length el' = length (elem mesh)" using lel by (simp add: el'_def)
  have inb: "i * L + j < length el" if "i < N" "j < L" for i j
    using getvolume_ok_index [OF ok, of i j] that lel by (simp add: L_def N_def)
  have el'_nth: "el' ! (i * L + j) = (if i < Suc k then fixed_at mesh i j else elem_at mesh i j)"
    if i: "i < N" and j: "j < L" for i j
  proof (cases "i = k")
    case True
    show ?thesis
    proof (cases "elem_vol6 mesh k < 0")
      case neg: True
      have "((el[k * L + 3 := elem_at mesh k 2])[k * L + 2 := elem_at mesh k 3]) ! (k * L + j) =
            fixed_at mesh k j"
        using inb [of k j] inb [of k 2] inb [of k 3] i j L4 True neg el
        by (simp add: nth_list_update fixed_at_def swap23_def)
      then show ?thesis using True neg by (simp add: el'_def)
    next
      case False
      then show ?thesis using True el i j by (simp add: el'_def fixed_at_def)
    qed
  next
    case False
    have ne2: "i * L + j \<noteq> k * L + 2" and ne3: "i * L + j \<noteq> k * L + 3"
      using flat_index_unique [of j L 2 i k] flat_index_unique [of j L 3 i k] False j L4
      by auto
    have "el' ! (i * L + j) = el ! (i * L + j)"
      using ne2 ne3 by (simp add: el'_def)
    then show ?thesis using el i j False by auto
  qed
  have ev'_nth: "ev[k := fixed_vol mesh k] ! i = (if i < Suc k then fixed_vol mesh i else 0)"
    if "i < N" for i
    using that ev lev k by (auto simp: nth_list_update N_def)
  have nv'_nth: "nv' ! n = (\<Sum>i < Suc k. node_share mesh i n)" if "n < nat (nn mesh)" for n
    using nv' nv lnv that by simp
  show ?case
    using fold_eq lel' el'_nth lev ev'_nth lnv lnv' nv'_nth
    unfolding L_def N_def by simp
qed

lemma node_share_fixed:
  assumes "4 \<le> nat (elemlen mesh)"
  shows "node_share mesh i n =
     (if type mesh ! i = 0 then 0
      else (\<Sum>j < nat (elemlen mesh). if fixed_at mesh i j = int n + 1 then fixed_vol mesh i * (1 / 4) else 0))"
proof (cases "elem_vol6 mesh i < 0")
  case True
  let ?g = "\<lambda>j. if elem_at mesh i j = int n + 1 then fixed_vol mesh i * (1 / 4) else 0"
  have "(\<Sum>j < nat (elemlen mesh). if fixed_at mesh i j = int n + 1 then fixed_vol mesh i * (1 / 4) else 0) =
        (\<Sum>j < nat (elemlen mesh). ?g (swap23 j))"
    using True by (simp add: fixed_at_def)
  also have "\<dots> = (\<Sum>j < nat (elemlen mesh). ?g j)"
    by (rule sum_swap23 [OF assms])
  finally show ?thesis by (simp add: node_share_def)
next
  case False
  then show ?thesis by (simp add: node_share_def fixed_at_def)
qed

lemma sum_distinct_hit:
  fixes c :: real
  assumes "distinct (map f [0..<L])"
  shows "(\<Sum>j < L. if f j = a then c else 0) = (if a \<in> set (map f [0..<L]) then c else 0)"
proof (cases "a \<in> set (map f [0..<L])")
  case True
  then obtain j0 where j0: "j0 < L" "f j0 = a" by auto
  have inj: "inj_on f {..<L}"
    using assms by (simp add: distinct_map atLeast0LessThan)
  have "(if f j = a then c else 0) = (if j = j0 then c else 0)" if "j \<in> {..<L}" for j
    using inj j0 that by (auto dest: inj_onD)
  then have "(\<Sum>j < L. if f j = a then c else 0) = (\<Sum>j < L. if j = j0 then c else 0)"
    by (intro sum.cong) simp_all
  also have "\<dots> = c" using j0 by simp
  finally show ?thesis using True by simp
next
  case False
  then have "(if f j = a then c else 0) = 0" if "j \<in> {..<L}" for j
    using that by auto
  then have "(\<Sum>j < L. if f j = a then c else 0) = (\<Sum>j < L. 0 :: real)"
    by (intro sum.cong) simp_all
  then show ?thesis using False by simp
qed

lemma fixed_nodes_distinct:
  assumes "4 \<le> L" "distinct (map g [0..<L])"
  shows "distinct (map (\<lambda>j. g (swap23 j)) [0..<L])"
proof -
  have g: "inj_on g {0..<L}" using assms(2) by (simp add: distinct_map)
  have "inj_on (\<lambda>j. g (swap23 j)) {0..<L}"
  proof (rule inj_onI)
    fix a b assume a: "a \<in> {0..<L}" and b: "b \<in> {0..<L}" and e: "g (swap23 a) = g (swap23 b)"
    have "swap23 a \<in> {0..<L}" "swap23 b \<in> {0..<L}"
      using a b swap23_less [OF assms(1)] by simp_all
    with g e have "swap23 a = swap23 b" by (auto dest: inj_onD)
    then have "swap23 (swap23 a) = swap23 (swap23 b)" by simp
    then show "a = b" by (simp only: swap23_swap23)
  qed
  then show ?thesis by (simp add: distinct_map)
qed

text \<open>
  Claim C1. On a mesh whose arrays have the announced sizes and whose node numbers lie in
  \<open>1..nn\<close>, \<^verbatim>\<open>mesh_getvolume\<close> returns, and afterwards, for every element \<open>i\<close>: the
  stored volume is non-negative; it is one sixth of the absolute value of the signed
  volume the code computes, which is minus the scalar triple product of the three edge
  vectors from node 0; the third and fourth node numbers are exchanged exactly when that
  signed volume is negative, and the other node numbers are kept. For every node \<open>n\<close>,
  \<open>nvol\<close> is the sum, over the elements whose region is not 0 and over the places where
  the node occurs in the element, of one quarter of the element's volume; when the nodes
  of each element are pairwise distinct this is the sum of one quarter of the element
  volume over the incident elements whose region is not 0.
\<close>

theorem mesh_getvolume_volumes:
  assumes ok: "getvolume_ok mesh"
  shows "\<exists>mesh'. mesh_getvolume mesh = Inr mesh'
    \<and> (\<forall>i < nat (ne mesh).
          0 \<le> evol mesh' ! i
        \<and> evol mesh' ! i = \<bar>elem_vol6 mesh i\<bar> * (1 / 6)
        \<and> elem_vol6 mesh i = - vec_dot3 (vec_diff3 (node_at mesh i 0) (node_at mesh i 1))
              (vec_cross3 (vec_diff3 (node_at mesh i 0) (node_at mesh i 2))
                 (vec_diff3 (node_at mesh i 0) (node_at mesh i 3)))
        \<and> (\<forall>j < nat (elemlen mesh). elem_at mesh' i j =
              (if elem_vol6 mesh i < 0
               then elem_at mesh i (swap23 j)
               else elem_at mesh i j)))
    \<and> (\<forall>n < nat (nn mesh). nvol mesh' ! n =
          (\<Sum>i < nat (ne mesh). if type mesh' ! i = 0 then 0
             else (\<Sum>j < nat (elemlen mesh).
                     if elem_at mesh' i j = int n + 1 then evol mesh' ! i * (1 / 4) else 0)))
    \<and> ((\<forall>i < nat (ne mesh). distinct (elem_nodes mesh i)) \<longrightarrow>
          (\<forall>n < nat (nn mesh). nvol mesh' ! n =
             (\<Sum>i \<in> {i. i < nat (ne mesh) \<and> type mesh' ! i \<noteq> 0 \<and> incident mesh' i n}.
                evol mesh' ! i * (1 / 4))))"
proof -
  define L where "L = nat (elemlen mesh)"
  define N where "N = nat (ne mesh)"
  have L4: "4 \<le> L" using getvolume_ok_L4 [OF ok] by (simp add: L_def)
  from getvolume_fold [OF ok, of N] obtain el ev nv where
    st: "fold (getvolume_elem mesh) [0..<N]
           (elem mesh, replicate (nat (ne mesh)) 0, replicate (nat (nn mesh)) 0) = (el, ev, nv)"
    and el: "\<forall>i < N. \<forall>j < L. el ! (i * L + j) = fixed_at mesh i j"
    and ev: "\<forall>i < N. ev ! i = fixed_vol mesh i"
    and nv: "\<forall>n < nat (nn mesh). nv ! n = (\<Sum>i < N. node_share mesh i n)"
    unfolding L_def N_def by auto
  define mesh' where "mesh' = mesh\<lparr>elem := el, evol := ev, nvol := nv\<rparr>"
  have ret: "mesh_getvolume mesh = Inr mesh'"
    using ok st by (simp add: mesh_getvolume_def mesh'_def N_def)
  have at: "elem_at mesh' i j = fixed_at mesh i j" if "i < N" "j < L" for i j
    using el that by (simp add: elem_at_def mesh'_def L_def)
  have vol: "evol mesh' ! i = fixed_vol mesh i" if "i < N" for i
    using ev that by (simp add: mesh'_def)
  have ty: "type mesh' = type mesh" by (simp add: mesh'_def)
  have share: "node_share mesh i n =
      (if type mesh' ! i = 0 then 0
       else (\<Sum>j < L. if elem_at mesh' i j = int n + 1 then evol mesh' ! i * (1 / 4) else 0))"
    if i: "i < N" for i n
  proof -
    have "(\<Sum>j < L. if elem_at mesh' i j = int n + 1 then evol mesh' ! i * (1 / 4) else 0) =
          (\<Sum>j < L. if fixed_at mesh i j = int n + 1 then fixed_vol mesh i * (1 / 4) else 0)"
      by (rule sum.cong) (simp_all add: at [OF i] vol [OF i])
    then show ?thesis
      using node_share_fixed [of mesh i n] L4 by (simp add: L_def ty)
  qed
  have p1: "0 \<le> evol mesh' ! i \<and> evol mesh' ! i = \<bar>elem_vol6 mesh i\<bar> * (1 / 6)
        \<and> elem_vol6 mesh i = - vec_dot3 (vec_diff3 (node_at mesh i 0) (node_at mesh i 1))
              (vec_cross3 (vec_diff3 (node_at mesh i 0) (node_at mesh i 2))
                 (vec_diff3 (node_at mesh i 0) (node_at mesh i 3)))
        \<and> (\<forall>j < L. elem_at mesh' i j =
              (if elem_vol6 mesh i < 0
               then elem_at mesh i (swap23 j)
               else elem_at mesh i j))" if i: "i < N" for i
    using vol [OF i] at [OF i] by (simp add: fixed_vol_def fixed_at_def elem_vol6_def tet_vol6_triple)
  have p2: "nvol mesh' ! n =
          (\<Sum>i < N. if type mesh' ! i = 0 then 0
             else (\<Sum>j < L. if elem_at mesh' i j = int n + 1 then evol mesh' ! i * (1 / 4) else 0))"
    if n: "n < nat (nn mesh)" for n
  proof -
    have "nvol mesh' ! n = (\<Sum>i < N. node_share mesh i n)"
      using nv n by (simp add: mesh'_def)
    also have "\<dots> = (\<Sum>i < N. if type mesh' ! i = 0 then 0
             else (\<Sum>j < L. if elem_at mesh' i j = int n + 1 then evol mesh' ! i * (1 / 4) else 0))"
      by (rule sum.cong) (simp_all add: share)
    finally show ?thesis .
  qed
  have p3: "nvol mesh' ! n =
             (\<Sum>i \<in> {i. i < N \<and> type mesh' ! i \<noteq> 0 \<and> incident mesh' i n}. evol mesh' ! i * (1 / 4))"
    if dist: "\<forall>i < N. distinct (elem_nodes mesh i)" and n: "n < nat (nn mesh)" for n
  proof -
    have nodes': "elem_nodes mesh' i = map (elem_at mesh' i) [0..<L]" for i
      by (simp add: elem_nodes_def mesh'_def L_def)
    have d': "distinct (map (elem_at mesh' i) [0..<L])" if i: "i < N" for i
    proof -
      have e: "map (elem_at mesh' i) [0..<L] = map (fixed_at mesh i) [0..<L]"
        using at [OF i] by simp
      have "distinct (map (fixed_at mesh i) [0..<L])"
      proof (cases "elem_vol6 mesh i < 0")
        case True
        have "distinct (map (elem_at mesh i) [0..<L])"
          using dist i by (simp add: elem_nodes_def L_def)
        moreover have "fixed_at mesh i = (\<lambda>j. elem_at mesh i (swap23 j))"
          using True by (simp add: fixed_at_def fun_eq_iff)
        ultimately show ?thesis using fixed_nodes_distinct [OF L4] by simp
      next
        case False
        then have "fixed_at mesh i = elem_at mesh i" by (simp add: fixed_at_def fun_eq_iff)
        then show ?thesis using dist i by (simp add: elem_nodes_def L_def)
      qed
      then show ?thesis by (simp only: e)
    qed
    have tm: "(if type mesh' ! i = 0 then 0
             else (\<Sum>j < L. if elem_at mesh' i j = int n + 1 then evol mesh' ! i * (1 / 4) else 0)) =
          (if type mesh' ! i \<noteq> 0 \<and> incident mesh' i n then evol mesh' ! i * (1 / 4) else 0)"
      if i: "i < N" for i
      using sum_distinct_hit [OF d' [OF i], of "int n + 1" "evol mesh' ! i * (1 / 4)"]
      by (simp add: incident_def nodes')
    have "nvol mesh' ! n = (\<Sum>i < N. if type mesh' ! i \<noteq> 0 \<and> incident mesh' i n
             then evol mesh' ! i * (1 / 4) else 0)"
      unfolding p2 [OF n] by (rule sum.cong) (simp_all add: tm)
    also have "\<dots> = (\<Sum>i \<in> {i \<in> {..<N}. type mesh' ! i \<noteq> 0 \<and> incident mesh' i n}. evol mesh' ! i * (1 / 4))"
      by (rule sum.inter_filter [symmetric]) simp
    also have "{i \<in> {..<N}. type mesh' ! i \<noteq> 0 \<and> incident mesh' i n} =
               {i. i < N \<and> type mesh' ! i \<noteq> 0 \<and> incident mesh' i n}" by auto
    finally show ?thesis .
  qed
  show ?thesis
    using ret p1 p2 p3 unfolding L_def N_def by blast
qed

theorem mesh_getvolume_volumes_witness:
  "getvolume_ok mesh_w1
   \<and> (\<exists>mesh'. mesh_getvolume mesh_w1 = Inr mesh'
        \<and> (\<forall>i < nat (ne mesh_w1). 0 \<le> evol mesh' ! i)
        \<and> (\<forall>n < nat (nn mesh_w1). nvol mesh' ! n =
              (\<Sum>i < nat (ne mesh_w1). if type mesh' ! i = 0 then 0
                 else (\<Sum>j < nat (elemlen mesh_w1).
                         if elem_at mesh' i j = int n + 1 then evol mesh' ! i * (1 / 4) else 0))))"
proof -
  have ok: "getvolume_ok mesh_w1"
    by (simp add: getvolume_ok_def mesh_w1_def mesh_init_def upt_conv_Cons)
  show ?thesis
    using mesh_getvolume_volumes [OF ok] ok by blast
qed

section \<open>Locating the enclosing element\<close>

lemma bary_check_Some:
  "bary_check vs s = Some t \<longleftrightarrow> list_all (\<lambda>v. 0 \<le> v) vs \<and> t = s + sum_list vs"
proof (induction vs arbitrary: s)
  case Nil
  show ?case by auto
next
  case (Cons v vs)
  show ?case
  proof (cases "v < 0")
    case True
    then show ?thesis by simp
  next
    case False
    then show ?thesis using Cons [of "s + v"] by (simp add: add.assoc)
  qed
qed

lemma bary_check_None: "bary_check vs s = None \<longleftrightarrow> \<not> list_all (\<lambda>v. 0 \<le> v) vs"
proof (induction vs arbitrary: s)
  case Nil
  show ?case by simp
next
  case (Cons v vs)
  show ?case
  proof (cases "v < 0")
    case True
    then show ?thesis by simp
  next
    case False
    then show ?thesis using Cons [of "s + v"] by simp
  qed
qed

lemma length_fold_update: "length (fold (\<lambda>i b. b[f i := g i]) js b) = length b"
  by (induction js arbitrary: b) simp_all

lemma length_barycentric_raw: "length (barycentric_raw mesh eid p) = 4"
  by (simp add: barycentric_raw_def length_fold_update)

lemma sum_list_fdiv:
  assumes "s \<noteq> 0"
  shows "map (\<lambda>v. fdiv v s) vs = map Some (map (\<lambda>v. v / s) vs)"
    and "sum_list (map (\<lambda>v. v / s) vs) = sum_list vs / s"
  using assms by (induction vs) (simp_all add: fdiv_def add_divide_distrib)

lemma sum_list_nonneg_real: "list_all (\<lambda>v. 0 \<le> v) vs \<Longrightarrow> 0 \<le> sum_list (vs :: real list)"
  by (induction vs) simp_all

text \<open>
  \<^verbatim>\<open>mesh_barycentric\<close> on an element of the mesh returns 0 exactly when the four
  values of the first loop are non-negative, and 1 otherwise.
\<close>

lemma mesh_barycentric_result:
  assumes "i < nat (ne mesh)" "elem_refs_ok mesh i 4"
  shows "mesh_barycentric (int i + 1) p mesh =
     (if list_all (\<lambda>v. 0 \<le> v) (barycentric_raw mesh i p)
      then Inr (0, map (\<lambda>v. fdiv v (sum_list (barycentric_raw mesh i p))) (barycentric_raw mesh i p))
      else Inr (1, map Some (barycentric_raw mesh i p)))"
proof -
  have in_mesh: "\<not> ne mesh \<le> int i + 1 - 1" "\<not> int i + 1 - 1 < 0" "nat (int i + 1 - 1) = i"
    using assms(1) by simp_all
  have unfolded: "mesh_barycentric (int i + 1) p mesh =
     (case bary_check (barycentric_raw mesh i p) 0 of
        None \<Rightarrow> Inr (1, map Some (barycentric_raw mesh i p))
      | Some s \<Rightarrow> Inr (0, map (\<lambda>v. fdiv v s) (barycentric_raw mesh i p)))"
    unfolding mesh_barycentric_def Let_def using in_mesh assms(2)
    by (simp cong: option.case_cong)
  show ?thesis
  proof (cases "bary_check (barycentric_raw mesh i p) 0")
    case None
    have "\<not> list_all (\<lambda>v. 0 \<le> v) (barycentric_raw mesh i p)"
      using None by (simp add: bary_check_None)
    then show ?thesis unfolding unfolded None by simp
  next
    case (Some s)
    have "list_all (\<lambda>v. 0 \<le> v) (barycentric_raw mesh i p)"
      and "s = sum_list (barycentric_raw mesh i p)"
      using Some by (simp_all add: bary_check_Some)
    then show ?thesis unfolding unfolded Some by simp
  qed
qed

lemma normalised_weights:
  assumes nn: "list_all (\<lambda>v. 0 \<le> v) b" and s: "sum_list b \<noteq> 0"
  shows "\<exists>w. map (\<lambda>v. fdiv v (sum_list b)) b = map Some w \<and> length w = length b
          \<and> list_all (\<lambda>v. 0 \<le> v) w \<and> sum_list w = 1"
proof -
  let ?w = "map (\<lambda>v. v / sum_list b) b"
  have pos: "0 < sum_list b" using sum_list_nonneg_real [OF nn] s by simp
  have "list_all (\<lambda>v. 0 \<le> v) ?w"
    using nn pos by (simp add: list_all_iff)
  moreover have "sum_list ?w = 1" using sum_list_fdiv(2) [OF s, of b] s by simp
  moreover have "map (\<lambda>v. fdiv v (sum_list b)) b = map Some ?w" by (rule sum_list_fdiv(1) [OF s])
  ultimately show ?thesis by (intro exI [of _ ?w]) simp
qed

lemma initelem_scan_result:
  assumes "\<forall>i \<in> set is. i < nat (ne mesh) \<and> elem_refs_ok mesh i (nat (elemlen mesh))"
    and "4 \<le> elemlen mesh"
  shows "\<exists>r cfg'. initelem_scan K mesh is cfg = Inr (r, cfg') \<and> srcpos cfg' = srcpos cfg
     \<and> (r = 0 \<or> r = 1)
     \<and> (r = 0 \<longrightarrow> (\<exists>i \<in> set is. e0 cfg' = int i + 1 \<and> encloses K mesh i (srcpos cfg)
            \<and> bary0 cfg' = map (\<lambda>v. fdiv v (sum_list (barycentric_raw mesh i (srcpos cfg))))
                              (barycentric_raw mesh i (srcpos cfg))))
     \<and> (r = 1 \<longrightarrow> e0 cfg' = e0 cfg \<and> (\<forall>i \<in> set is. \<not> encloses K mesh i (srcpos cfg)))"
  using assms(1)
proof (induction "is" arbitrary: cfg)
  case Nil
  show ?case by simp
next
  case (Cons i "is")
  have i: "i < nat (ne mesh)" and ok: "elem_refs_ok mesh i (nat (elemlen mesh))"
    using Cons.prems by simp_all
  have ok4: "elem_refs_ok mesh i 4"
  proof -
    have "set [0..<4] \<subseteq> set [0..<nat (elemlen mesh)]" using assms(2) by auto
    then show ?thesis using ok unfolding elem_refs_ok_def list_all_iff by blast
  qed
  have rest: "\<forall>i \<in> set is. i < nat (ne mesh) \<and> elem_refs_ok mesh i (nat (elemlen mesh))"
    using Cons.prems by simp
  note bc = mesh_barycentric_result [OF i ok4, of "srcpos cfg"]
  show ?case
  proof (cases "in_bbox (srcpos cfg) (elem_bbox K mesh i)")
    case False
    from Cons.IH [OF rest, of cfg] obtain r cfg' where
      "initelem_scan K mesh is cfg = Inr (r, cfg')" "srcpos cfg' = srcpos cfg" "r = 0 \<or> r = 1"
      "r = 0 \<longrightarrow> (\<exists>i \<in> set is. e0 cfg' = int i + 1 \<and> encloses K mesh i (srcpos cfg)
            \<and> bary0 cfg' = map (\<lambda>v. fdiv v (sum_list (barycentric_raw mesh i (srcpos cfg))))
                              (barycentric_raw mesh i (srcpos cfg)))"
      "r = 1 \<longrightarrow> e0 cfg' = e0 cfg \<and> (\<forall>i \<in> set is. \<not> encloses K mesh i (srcpos cfg))"
      by blast
    then show ?thesis
      using False ok by (auto simp: encloses_def)
  next
    case True
    show ?thesis
    proof (cases "list_all (\<lambda>v. 0 \<le> v) (barycentric_raw mesh i (srcpos cfg))")
      case pass: True
      then show ?thesis
        using True ok bc by (simp add: encloses_def)
    next
      case fail: False
      let ?cfg = "cfg\<lparr>bary0 := map Some (barycentric_raw mesh i (srcpos cfg))\<rparr>"
      from Cons.IH [OF rest, of ?cfg] obtain r cfg' where
        "initelem_scan K mesh is ?cfg = Inr (r, cfg')" "srcpos cfg' = srcpos cfg" "r = 0 \<or> r = 1"
        "r = 0 \<longrightarrow> (\<exists>i \<in> set is. e0 cfg' = int i + 1 \<and> encloses K mesh i (srcpos cfg)
            \<and> bary0 cfg' = map (\<lambda>v. fdiv v (sum_list (barycentric_raw mesh i (srcpos cfg))))
                              (barycentric_raw mesh i (srcpos cfg)))"
        "r = 1 \<longrightarrow> e0 cfg' = e0 cfg \<and> (\<forall>i \<in> set is. \<not> encloses K mesh i (srcpos cfg))"
        by auto
      then show ?thesis
        using True fail ok bc by (auto simp: encloses_def)
    qed
  qed
qed

text \<open>
  Claim C2, as amended. On a mesh whose elements refer to stored nodes,
  \<^verbatim>\<open>mesh_initelem\<close> returns 0 or 1. When it returns 0 it has set \<^verbatim>\<open>cfg->e0\<close> to an
  element that passes the bounding-box test and whose four weights are all non-negative,
  and \<^verbatim>\<open>cfg->bary0\<close> holds these weights divided by their sum; if that sum is not zero
  the four stored weights are non-negative numbers that sum to 1. When no element passes
  the test it returns 1 and leaves \<^verbatim>\<open>cfg->e0\<close> as it was.
\<close>

theorem mesh_initelem_locates:
  assumes refs: "list_all (\<lambda>i. elem_refs_ok mesh i (nat (elemlen mesh))) [0..<nat (ne mesh)]"
    and len: "4 \<le> elemlen mesh"
  shows "\<exists>r cfg'. mesh_initelem K mesh cfg = Inr (r, cfg') \<and> (r = 0 \<or> r = 1)
     \<and> (r = 0 \<longrightarrow> (\<exists>i < nat (ne mesh). e0 cfg' = int i + 1 \<and> encloses K mesh i (srcpos cfg)
            \<and> list_all (\<lambda>v. 0 \<le> v) (barycentric_raw mesh i (srcpos cfg))
            \<and> bary0 cfg' = map (\<lambda>v. fdiv v (sum_list (barycentric_raw mesh i (srcpos cfg))))
                              (barycentric_raw mesh i (srcpos cfg))
            \<and> (sum_list (barycentric_raw mesh i (srcpos cfg)) \<noteq> 0 \<longrightarrow>
                 (\<exists>w. bary0 cfg' = map Some w \<and> length w = 4
                       \<and> list_all (\<lambda>v. 0 \<le> v) w \<and> sum_list w = 1))))
     \<and> (r = 1 \<longrightarrow> e0 cfg' = e0 cfg \<and> (\<forall>i < nat (ne mesh). \<not> encloses K mesh i (srcpos cfg)))"
proof -
  have all: "\<forall>i \<in> set [0..<nat (ne mesh)]. i < nat (ne mesh) \<and> elem_refs_ok mesh i (nat (elemlen mesh))"
    using refs by (simp add: list_all_iff)
  from initelem_scan_result [OF all len, of K cfg] obtain r cfg' where
    ret: "mesh_initelem K mesh cfg = Inr (r, cfg')" and r: "r = 0 \<or> r = 1"
    and found: "r = 0 \<longrightarrow> (\<exists>i \<in> set [0..<nat (ne mesh)]. e0 cfg' = int i + 1
            \<and> encloses K mesh i (srcpos cfg)
            \<and> bary0 cfg' = map (\<lambda>v. fdiv v (sum_list (barycentric_raw mesh i (srcpos cfg))))
                              (barycentric_raw mesh i (srcpos cfg)))"
    and missing: "r = 1 \<longrightarrow> e0 cfg' = e0 cfg
            \<and> (\<forall>i \<in> set [0..<nat (ne mesh)]. \<not> encloses K mesh i (srcpos cfg))"
    unfolding mesh_initelem_def by blast
  have "\<exists>i < nat (ne mesh). e0 cfg' = int i + 1 \<and> encloses K mesh i (srcpos cfg)
            \<and> list_all (\<lambda>v. 0 \<le> v) (barycentric_raw mesh i (srcpos cfg))
            \<and> bary0 cfg' = map (\<lambda>v. fdiv v (sum_list (barycentric_raw mesh i (srcpos cfg))))
                              (barycentric_raw mesh i (srcpos cfg))
            \<and> (sum_list (barycentric_raw mesh i (srcpos cfg)) \<noteq> 0 \<longrightarrow>
                 (\<exists>w. bary0 cfg' = map Some w \<and> length w = 4
                       \<and> list_all (\<lambda>v. 0 \<le> v) w \<and> sum_list w = 1))" if "r = 0"
  proof -
    from found that obtain i where i: "i < nat (ne mesh)" "e0 cfg' = int i + 1"
      "encloses K mesh i (srcpos cfg)"
      "bary0 cfg' = map (\<lambda>v. fdiv v (sum_list (barycentric_raw mesh i (srcpos cfg))))
                              (barycentric_raw mesh i (srcpos cfg))"
      by auto
    have nn: "list_all (\<lambda>v. 0 \<le> v) (barycentric_raw mesh i (srcpos cfg))"
      using i(3) by (simp add: encloses_def)
    have "\<exists>w. bary0 cfg' = map Some w \<and> length w = 4 \<and> list_all (\<lambda>v. 0 \<le> v) w \<and> sum_list w = 1"
      if "sum_list (barycentric_raw mesh i (srcpos cfg)) \<noteq> 0"
      using normalised_weights [OF nn that] i(4) by (simp add: length_barycentric_raw)
    then show ?thesis using i nn by blast
  qed
  moreover have "e0 cfg' = e0 cfg \<and> (\<forall>i < nat (ne mesh). \<not> encloses K mesh i (srcpos cfg))" if "r = 1"
    using missing that by simp
  ultimately show ?thesis using ret r by blast
qed

theorem mesh_initelem_locates_witness:
  "list_all (\<lambda>i. elem_refs_ok mesh_w2 i (nat (elemlen mesh_w2))) [0..<nat (ne mesh_w2)]
   \<and> 4 \<le> elemlen mesh_w2
   \<and> (\<exists>r cfg'. mesh_initelem const_w mesh_w2 (cfg_w\<lparr>srcpos := (1 / 4, 1 / 4, 1 / 4)\<rparr>) = Inr (r, cfg')
        \<and> (r = 0 \<or> r = 1))
   \<and> mesh_initelem const_w mesh_w2 (cfg_w\<lparr>srcpos := (1 / 4, 1 / 4, 1 / 4)\<rparr>) =
       Inr (0, cfg_w\<lparr>srcpos := (1 / 4, 1 / 4, 1 / 4),
                     bary0 := [Some (1 / 4), Some (1 / 4), Some (1 / 4), Some (1 / 4)], e0 := 1\<rparr>)"
proof -
  have h1: "list_all (\<lambda>i. elem_refs_ok mesh_w2 i (nat (elemlen mesh_w2))) [0..<nat (ne mesh_w2)]"
    by (simp add: mesh_w2_def mesh_init_def elem_refs_ok_def upt_conv_Cons)
  have h2: "4 \<le> elemlen mesh_w2" by (simp add: mesh_w2_def mesh_init_def)
  have v: "mesh_initelem const_w mesh_w2 (cfg_w\<lparr>srcpos := (1 / 4, 1 / 4, 1 / 4)\<rparr>) =
       Inr (0, cfg_w\<lparr>srcpos := (1 / 4, 1 / 4, 1 / 4),
                     bary0 := [Some (1 / 4), Some (1 / 4), Some (1 / 4), Some (1 / 4)], e0 := 1\<rparr>)"
    by (simp add: mesh_initelem_def mesh_w2_def mesh_init_def cfg_w_def const_w_def
        elem_refs_ok_def elem_bbox_def in_bbox_def mesh_barycentric_def barycentric_raw_def
        bary_face_def out_def facemap_def vec_diff3_def vec_cross3_def vec_dot3_def fdiv_def
        Let_def upt_conv_Cons)
  show ?thesis
    using mesh_initelem_locates [OF h1 h2, of const_w "cfg_w\<lparr>srcpos := (1 / 4, 1 / 4, 1 / 4)\<rparr>"] h1 h2 v
    by blast
qed

text \<open>
  Claim C2 as stated fails on an element of zero volume. The four nodes of the element
  of \<open>mesh_c2\<close> lie in the plane \<open>z = 0\<close>, and so does the point \<open>(1/2, 1/2, 0)\<close>: the
  four weights are 0, none is negative, their sum is 0, and the division by the sum gives
  no number. \<^verbatim>\<open>mesh_initelem\<close> returns 0 with \<open>e0 = 1\<close>, and the stored weights do not
  sum to 1.
\<close>

theorem mesh_initelem_counterexample:
  "mesh_initelem const_w mesh_c2 (cfg_w\<lparr>srcpos := (1 / 2, 1 / 2, 0)\<rparr>) =
     Inr (0, cfg_w\<lparr>srcpos := (1 / 2, 1 / 2, 0), bary0 := [None, None, None, None], e0 := 1\<rparr>)"
  by (simp add: mesh_initelem_def mesh_c2_def mesh_init_def cfg_w_def const_w_def
      elem_refs_ok_def elem_bbox_def in_bbox_def mesh_barycentric_def barycentric_raw_def
      bary_face_def out_def facemap_def vec_diff3_def vec_cross3_def vec_dot3_def fdiv_def
      Let_def upt_conv_Cons)

section \<open>Scattering\<close>

lemma scat_polar_hg:
  assumes "0 \<le> eps" "eps < g" "1 - g + 2 * g * xi \<noteq> 0"
  shows "scat_polar eps g xi =
     Some (sqrt (1 - (max (- 1) (min 1 (hg_cos g xi)))\<^sup>2), max (- 1) (min 1 (hg_cos g xi)))"
proof -
  have g: "2 * g \<noteq> 0" using assms by simp
  have d1: "fdiv (1 - g * g) (1 - g + 2 * g * xi) = Some ((1 - g * g) / (1 - g + 2 * g * xi))"
    using assms(3) by (simp add: fdiv_def)
  have d2: "fdiv v (2 * g) = Some (v / (2 * g))" for v
    using g by (simp add: fdiv_def)
  have hg: "(1 + g * g - (1 - g * g) / (1 - g + 2 * g * xi) * ((1 - g * g) / (1 - g + 2 * g * xi))) / (2 * g)
            = hg_cos g xi"
    by (simp add: hg_cos_def power2_eq_square)
  have clamp: "(if (if v > 1 then 1 else v) < - 1 then - 1 else (if v > 1 then 1 else v)) =
               max (- 1) (min 1 v)" for v :: real
    by (simp add: max_def min_def)
  show ?thesis
    using assms(2)
    by (simp only: scat_polar_def d1 d2 hg Let_def clamp option.case if_True power2_eq_square)
qed

lemma scat_polar_uniform:
  assumes "g \<le> eps" "0 \<le> xi" "xi \<le> 1"
  shows "scat_polar eps g xi = Some (sqrt (1 - (2 * xi - 1)\<^sup>2), 2 * xi - 1)"
proof -
  have r: "- 1 \<le> 2 * xi - 1" "2 * xi - 1 \<le> 1" using assms by simp_all
  then have "\<bar>2 * xi - 1\<bar> \<le> 1" by simp
  then have "sin (arccos (2 * xi - 1)) = sqrt (1 - (2 * xi - 1)\<^sup>2)"
    by (rule sin_arccos_abs)
  moreover have "cos (arccos (2 * xi - 1)) = 2 * xi - 1" using r by (rule cos_arccos)
  moreover have "facos (2 * xi - 1) = Some (arccos (2 * xi - 1))" using r by (simp add: facos_def)
  ultimately show ?thesis using assms(1) by (simp add: scat_polar_def)
qed

lemma clamp_unit:
  fixes v :: real
  defines "t \<equiv> (if (if v > 1 then 1 else v) < - 1 then - 1 else (if v > 1 then 1 else v))"
  shows "(sqrt (1 - t * t))\<^sup>2 + t\<^sup>2 = 1"
proof -
  have "- 1 \<le> t" "t \<le> 1" by (simp_all add: t_def)
  then have "\<bar>t\<bar> \<le> 1" by simp
  then have "t\<^sup>2 \<le> 1" by (simp add: abs_square_le_1)
  then have "0 \<le> 1 - t * t" by (simp add: power2_eq_square)
  then have "(sqrt (1 - t * t))\<^sup>2 = 1 - t * t" by simp
  then show ?thesis by (simp add: power2_eq_square)
qed

lemma scat_polar_unit:
  assumes "scat_polar eps g xi = Some (st, ct)"
  shows "st\<^sup>2 + ct\<^sup>2 = 1"
proof (cases "g > eps")
  case True
  from assms True obtain a where a: "fdiv (1 - g * g) (1 - g + 2 * g * xi) = Some a"
    by (cases "fdiv (1 - g * g) (1 - g + 2 * g * xi)") (simp_all add: scat_polar_def)
  from assms True a obtain b where b: "fdiv (1 + g * g - a * a) (2 * g) = Some b"
    by (cases "fdiv (1 + g * g - a * a) (2 * g)") (simp_all add: scat_polar_def)
  define t where "t = (if (if b > 1 then 1 else b) < - 1 then - 1 else (if b > 1 then 1 else b))"
  have e: "scat_polar eps g xi = Some (sqrt (1 - t * t), t)"
    using True unfolding t_def by (simp only: scat_polar_def a b option.case Let_def if_True)
  have "Some (st, ct) = Some (sqrt (1 - t * t), t)"
    by (rule trans [OF assms [symmetric] e])
  then have "st = sqrt (1 - t * t)" "ct = t" by simp_all
  then show ?thesis using clamp_unit [of b] unfolding t_def by simp
next
  case False
  from assms False obtain theta where "st = sin theta" "ct = cos theta"
    by (auto simp: scat_polar_def split: option.splits)
  then show ?thesis by simp
qed

lemma rot_algebra:
  fixes a t0 dx dy dz st ct sphi cphi :: real
  assumes "t0 = 1 - dz * dz" "dx\<^sup>2 + dy\<^sup>2 + dz\<^sup>2 = 1" "a\<^sup>2 * t0 = st\<^sup>2" "st\<^sup>2 + ct\<^sup>2 = 1"
    "sphi\<^sup>2 + cphi\<^sup>2 = 1"
  shows "(a * (dx * dz * cphi - dy * sphi) + dx * ct)\<^sup>2 + (a * (dy * dz * cphi + dx * sphi) + dy * ct)\<^sup>2
         + (- a * t0 * cphi + dz * ct)\<^sup>2 = 1"
  using assms by algebra

lemma axis_algebra:
  fixes st ct sphi cphi z :: real
  assumes "st\<^sup>2 + ct\<^sup>2 = 1" "sphi\<^sup>2 + cphi\<^sup>2 = 1" "z\<^sup>2 = ct\<^sup>2"
  shows "(st * cphi)\<^sup>2 + (st * sphi)\<^sup>2 + z\<^sup>2 = 1"
  using assms by algebra

lemma vec_dot3_self: "vec_dot3 (a, b, c) (a, b, c) = a\<^sup>2 + b\<^sup>2 + c\<^sup>2"
  by (simp add: vec_dot3_def power2_eq_square)

lemma scat_rotate_unit:
  assumes eps: "0 \<le> eps" and dir: "vec_dot3 dir dir = 1"
    and polar: "st\<^sup>2 + ct\<^sup>2 = 1" and azim: "sphi\<^sup>2 + cphi\<^sup>2 = 1"
  shows "\<exists>p. scat_rotate eps dir (sphi, cphi) (st, ct) = Some p \<and> vec_dot3 p p = 1"
proof -
  obtain dx dy dz where d: "dir = (dx, dy, dz)" by (cases dir) auto
  have n: "dx\<^sup>2 + dy\<^sup>2 + dz\<^sup>2 = 1" using dir by (simp add: d vec_dot3_self)
  show ?thesis
  proof (cases "dz > - 1 + eps \<and> dz < 1 - eps")
    case True
    define t0 where "t0 = 1 - dz * dz"
    define a where "a = st * (1 / sqrt t0)"
    have "\<bar>dz\<bar> < 1" using True eps by linarith
    then have "dz\<^sup>2 < 1" by (simp add: abs_square_less_1)
    then have t0: "0 < t0" by (simp add: t0_def power2_eq_square)
    then have sq: "sqrt t0 \<noteq> 0" "\<not> t0 < 0" by simp_all
    have "a\<^sup>2 = st\<^sup>2 / t0"
      using t0 by (simp add: a_def power_mult_distrib power_divide)
    then have a2: "a\<^sup>2 * t0 = st\<^sup>2" using t0 by simp
    let ?p = "(a * (dx * dz * cphi - dy * sphi) + dx * ct,
               a * (dy * dz * cphi + dx * sphi) + dy * ct,
               - a * t0 * cphi + dz * ct)"
    have "scat_rotate eps dir (sphi, cphi) (st, ct) = Some ?p"
      using True sq
      by (simp add: scat_rotate_def d fdiv_def Let_def t0_def [symmetric] a_def)
    moreover have "vec_dot3 ?p ?p = 1"
      unfolding vec_dot3_self by (rule rot_algebra [OF t0_def n a2 polar azim])
    ultimately show ?thesis by blast
  next
    case False
    define z where "z = (if dz > 0 then ct else - ct)"
    have z: "z\<^sup>2 = ct\<^sup>2" by (simp add: z_def)
    have "scat_rotate eps dir (sphi, cphi) (st, ct) = Some (st * cphi, st * sphi, z)"
      using False by (auto simp: scat_rotate_def d z_def)
    moreover have "vec_dot3 (st * cphi, st * sphi, z) (st * cphi, st * sphi, z) = 1"
      unfolding vec_dot3_self by (rule axis_algebra [OF polar azim z])
    ultimately show ?thesis by blast
  qed
qed

lemma scat_rotate_total:
  assumes eps: "0 \<le> eps"
  shows "\<exists>p. scat_rotate eps dir azim polar = Some p"
proof -
  obtain dx dy dz where d: "dir = (dx, dy, dz)" by (cases dir) auto
  obtain sphi cphi where a: "azim = (sphi, cphi)" by (cases azim) auto
  obtain st ct where b: "polar = (st, ct)" by (cases polar) auto
  show ?thesis
  proof (cases "dz > - 1 + eps \<and> dz < 1 - eps")
    case True
    have "\<bar>dz\<bar> < 1" using True eps by linarith
    then have "dz\<^sup>2 < 1" by (simp add: abs_square_less_1)
    then have t0: "0 < 1 - dz * dz" by (simp add: power2_eq_square)
    then have sq: "sqrt (1 - dz * dz) \<noteq> 0" "\<not> 1 - dz * dz < 0" by simp_all
    show ?thesis
      using True sq by (simp add: scat_rotate_def d a b fdiv_def Let_def)
  next
    case False
    thus ?thesis by (auto simp: scat_rotate_def d a b)
  qed
qed

lemma scat_rotate_general_dot:
  assumes rot: "scat_rotate eps (dx, dy, dz) (sphi, cphi) (st, ct) = Some p"
    and gen: "dz > - 1 + eps \<and> dz < 1 - eps"
    and unit: "vec_dot3 (dx, dy, dz) (dx, dy, dz) = 1"
  shows "vec_dot3 (dx, dy, dz) p = ct"
proof -
  define t0 where "t0 = 1 - dz * dz"
  define r0 where "r0 = (if t0 < 0 then None else fdiv 1 (sqrt t0))"
  have e: "scat_rotate eps (dx, dy, dz) (sphi, cphi) (st, ct) =
      (case r0 of
         None \<Rightarrow> None
       | Some tmp1 \<Rightarrow>
           Some (st * tmp1 * (dx * dz * cphi - dy * sphi) + dx * ct,
                 st * tmp1 * (dy * dz * cphi + dx * sphi) + dy * ct,
                 - (st * tmp1) * t0 * cphi + dz * ct))"
    unfolding scat_rotate_def Let_def r0_def t0_def using gen by simp
  obtain r where r: "r0 = Some r"
    using rot unfolding e by (cases r0) simp_all
  define a where "a = st * r"
  have p: "p = (a * (dx * dz * cphi - dy * sphi) + dx * ct,
                a * (dy * dz * cphi + dx * sphi) + dy * ct,
                - a * t0 * cphi + dz * ct)"
    using rot unfolding e r a_def by simp
  have n: "dx * dx + dy * dy + dz * dz = 1" using unit by (simp add: vec_dot3_def)
  have t: "t0 = dx * dx + dy * dy" using n by (simp add: t0_def)
  have "vec_dot3 (dx, dy, dz) p
        = a * cphi * dz * (dx * dx + dy * dy - t0) + ct * (dx * dx + dy * dy + dz * dz)"
    unfolding p vec_dot3_def by (simp add: algebra_simps)
  thus ?thesis unfolding t n by simp
qed

lemma mc_next_scatter_result:
  assumes eps: "0 \<le> EPS K"
    and pol: "scat_polar (EPS K) g (zangle draws) = Some (st, ct)"
  shows "\<exists>p. mc_next_scatter K g dir draws cfg pmom0
           = Some (scatlen draws, p, if ismomentum cfg \<noteq> 0 then pmom0 + (1 - ct) else pmom0)
         \<and> scat_rotate (EPS K) dir (sin (2 * pi * aangle draws), cos (2 * pi * aangle draws)) (st, ct)
           = Some p"
proof -
  obtain p where
    p: "scat_rotate (EPS K) dir (sin (2 * pi * aangle draws), cos (2 * pi * aangle draws)) (st, ct) = Some p"
    using scat_rotate_total [OF eps] by blast
  have "mc_next_scatter K g dir draws cfg pmom0
           = Some (scatlen draws, p, if ismomentum cfg \<noteq> 0 then pmom0 + (1 - ct) else pmom0)"
    by (simp add: mc_next_scatter_def Let_def scat_azimuth_def TWO_PI_def pol p)
  thus ?thesis using p by blast
qed

lemma clamp_range: "- 1 \<le> max (- 1) (min 1 (v :: real)) \<and> max (- 1) (min 1 v) \<le> 1"
  by (simp add: max_def min_def)

text \<open>
  Claim C3. With \<open>0 \<le> EPS\<close>, \<^verbatim>\<open>mc_next_scatter\<close> returns, and what it returns is made of
  the two sampled angles. When \<open>g > EPS\<close> and the divisor \<open>1 - g + 2 g \<xi>\<close> of the
  Henyey-Greenstein expression is not zero, \<open>cos \<theta>\<close> is that expression clamped into
  \<open>[-1, 1]\<close>; when \<open>g \<le> EPS\<close> and the draw \<open>\<xi>\<close> is in \<open>[0, 1]\<close>, \<open>cos \<theta>\<close> is \<open>2 \<xi> - 1\<close>, the
  affine image of the draw on \<open>[-1, 1]\<close>; the azimuth \<open>\<phi>\<close> is \<open>2 \<pi>\<close> times its draw, in
  \<open>[0, 2 \<pi>)\<close> for a draw in \<open>[0, 1)\<close>. In both cases the function returns the drawn
  scattering length, the direction that lines 1455--1467 compute from \<open>sin \<phi>\<close>, \<open>cos \<phi>\<close>,
  \<open>sin \<theta> = sqrt (1 - cos\<^sup>2 \<theta>)\<close> and \<open>cos \<theta>\<close>, and \<^verbatim>\<open>pmom[0]\<close> increased by \<open>1 - cos \<theta>\<close>
  when momentum transfer is recorded; in the general branch of the rotation a unit
  direction is turned by exactly \<open>\<theta>\<close>: its scalar product with the new direction is
  \<open>cos \<theta>\<close>.
\<close>

theorem scatter_angles:
  assumes eps: "0 \<le> EPS K"
    and dom: "EPS K < g \<and> 1 - g + 2 * g * zangle draws \<noteq> 0 \<and> ct = max (- 1) (min 1 (hg_cos g (zangle draws)))
              \<or> g \<le> EPS K \<and> 0 \<le> zangle draws \<and> zangle draws \<le> 1 \<and> ct = 2 * zangle draws - 1"
  shows "\<exists>p. mc_next_scatter K g (dx, dy, dz) draws cfg pmom0
             = Some (scatlen draws, p, if ismomentum cfg \<noteq> 0 then pmom0 + (1 - ct) else pmom0)
          \<and> scat_rotate (EPS K) (dx, dy, dz)
               (sin (2 * pi * aangle draws), cos (2 * pi * aangle draws)) (sqrt (1 - ct\<^sup>2), ct)
             = Some p
          \<and> - 1 \<le> ct \<and> ct \<le> 1
          \<and> (0 \<le> aangle draws \<and> aangle draws < 1 \<longrightarrow>
                0 \<le> 2 * pi * aangle draws \<and> 2 * pi * aangle draws < 2 * pi)
          \<and> (vec_dot3 (dx, dy, dz) (dx, dy, dz) = 1 \<and> - 1 + EPS K < dz \<and> dz < 1 - EPS K \<longrightarrow>
                vec_dot3 (dx, dy, dz) p = ct)"
proof -
  have pol: "scat_polar (EPS K) g (zangle draws) = Some (sqrt (1 - ct\<^sup>2), ct)"
    and rng: "- 1 \<le> ct \<and> ct \<le> 1"
  proof -
    from dom show "scat_polar (EPS K) g (zangle draws) = Some (sqrt (1 - ct\<^sup>2), ct)"
    proof
      assume a: "EPS K < g \<and> 1 - g + 2 * g * zangle draws \<noteq> 0
                 \<and> ct = max (- 1) (min 1 (hg_cos g (zangle draws)))"
      thus ?thesis using scat_polar_hg [OF eps, of g "zangle draws"] by simp
    next
      assume b: "g \<le> EPS K \<and> 0 \<le> zangle draws \<and> zangle draws \<le> 1 \<and> ct = 2 * zangle draws - 1"
      thus ?thesis using scat_polar_uniform [of g "EPS K" "zangle draws"] by simp
    qed
    from dom show "- 1 \<le> ct \<and> ct \<le> 1"
      using clamp_range [of "hg_cos g (zangle draws)"] by auto
  qed
  obtain p where
    r: "mc_next_scatter K g (dx, dy, dz) draws cfg pmom0
         = Some (scatlen draws, p, if ismomentum cfg \<noteq> 0 then pmom0 + (1 - ct) else pmom0)"
    and rot: "scat_rotate (EPS K) (dx, dy, dz)
               (sin (2 * pi * aangle draws), cos (2 * pi * aangle draws)) (sqrt (1 - ct\<^sup>2), ct) = Some p"
    using mc_next_scatter_result [OF eps pol] by blast
  have az: "0 \<le> 2 * pi * aangle draws \<and> 2 * pi * aangle draws < 2 * pi"
    if "0 \<le> aangle draws \<and> aangle draws < 1"
  proof -
    have "2 * pi * aangle draws < 2 * pi * 1"
      using that by (intro mult_strict_left_mono) simp_all
    then show ?thesis using that by simp
  qed
  have dot: "vec_dot3 (dx, dy, dz) p = ct"
    if "vec_dot3 (dx, dy, dz) (dx, dy, dz) = 1 \<and> - 1 + EPS K < dz \<and> dz < 1 - EPS K"
    using scat_rotate_general_dot [OF rot] that by blast
  show ?thesis
    using r rot rng az dot by blast
qed

theorem scatter_angles_witness:
  "0 \<le> EPS const_w
   \<and> EPS const_w < 9 / 10 \<and> 1 - 9 / 10 + 2 * (9 / 10) * zangle draws_w \<noteq> (0 :: real)
   \<and> (\<exists>p. mc_next_scatter const_w (9 / 10) (0, 0, 1) draws_w cfg_w 0
             = Some (scatlen draws_w, p, 0)
        \<and> scat_rotate (EPS const_w) (0, 0, 1)
             (sin (2 * pi * aangle draws_w), cos (2 * pi * aangle draws_w))
             (sqrt (1 - (max (- 1) (min 1 (hg_cos (9 / 10) (zangle draws_w))))\<^sup>2),
              max (- 1) (min 1 (hg_cos (9 / 10) (zangle draws_w))))
           = Some p)
   \<and> (0 :: real) \<le> EPS const_w \<and> 0 \<le> zangle draws_w \<and> zangle draws_w \<le> 1
   \<and> (\<exists>p. mc_next_scatter const_w 0 (0, 0, 1) draws_w (cfg_w\<lparr>ismomentum := 1\<rparr>) 0
             = Some (scatlen draws_w, p, 0 + (1 - (2 * zangle draws_w - 1))))"
proof -
  have h: "0 \<le> EPS const_w" by (simp add: const_w_def)
  have h1: "EPS const_w < 9 / 10" "1 - 9 / 10 + 2 * (9 / 10) * zangle draws_w \<noteq> (0 :: real)"
    by (simp_all add: const_w_def draws_w_def)
  have h2: "(0 :: real) \<le> EPS const_w" "0 \<le> zangle draws_w" "zangle draws_w \<le> 1"
    by (simp_all add: const_w_def draws_w_def)
  have m: "ismomentum cfg_w = 0" "ismomentum (cfg_w\<lparr>ismomentum := 1\<rparr>) \<noteq> 0"
    by (simp_all add: cfg_w_def)
  have d1: "EPS const_w < 9 / 10 \<and> 1 - 9 / 10 + 2 * (9 / 10) * zangle draws_w \<noteq> 0
            \<and> max (- 1) (min 1 (hg_cos (9 / 10) (zangle draws_w)))
                = max (- 1) (min 1 (hg_cos (9 / 10) (zangle draws_w)))
          \<or> 9 / 10 \<le> EPS const_w \<and> 0 \<le> zangle draws_w \<and> zangle draws_w \<le> 1
            \<and> max (- 1) (min 1 (hg_cos (9 / 10) (zangle draws_w))) = 2 * zangle draws_w - 1"
    using h1 by simp
  have d2: "EPS const_w < 0 \<and> 1 - 0 + 2 * 0 * zangle draws_w \<noteq> 0
            \<and> 2 * zangle draws_w - 1 = max (- 1) (min 1 (hg_cos 0 (zangle draws_w)))
          \<or> 0 \<le> EPS const_w \<and> 0 \<le> zangle draws_w \<and> zangle draws_w \<le> 1
            \<and> 2 * zangle draws_w - 1 = 2 * zangle draws_w - 1"
    using h2 by simp
  obtain p where a: "mc_next_scatter const_w (9 / 10) (0, 0, 1) draws_w cfg_w 0
             = Some (scatlen draws_w, p, if ismomentum cfg_w \<noteq> 0
                  then 0 + (1 - max (- 1) (min 1 (hg_cos (9 / 10) (zangle draws_w)))) else 0)"
    "scat_rotate (EPS const_w) (0, 0, 1)
             (sin (2 * pi * aangle draws_w), cos (2 * pi * aangle draws_w))
             (sqrt (1 - (max (- 1) (min 1 (hg_cos (9 / 10) (zangle draws_w))))\<^sup>2),
              max (- 1) (min 1 (hg_cos (9 / 10) (zangle draws_w))))
           = Some p"
    using scatter_angles [OF h d1, of 0 0 1 cfg_w 0] by blast
  obtain q where b: "mc_next_scatter const_w 0 (0, 0, 1) draws_w (cfg_w\<lparr>ismomentum := 1\<rparr>) 0
             = Some (scatlen draws_w, q, if ismomentum (cfg_w\<lparr>ismomentum := 1\<rparr>) \<noteq> 0
                  then 0 + (1 - (2 * zangle draws_w - 1)) else 0)"
    using scatter_angles [OF h d2, of 0 0 1 "cfg_w\<lparr>ismomentum := 1\<rparr>" 0] by blast
  have a': "mc_next_scatter const_w (9 / 10) (0, 0, 1) draws_w cfg_w 0 = Some (scatlen draws_w, p, 0)"
    using a(1) m(1) by (simp only: if_False simp_thms)
  have b': "mc_next_scatter const_w 0 (0, 0, 1) draws_w (cfg_w\<lparr>ismomentum := 1\<rparr>) 0
             = Some (scatlen draws_w, q, 0 + (1 - (2 * zangle draws_w - 1)))"
    using b m(2) by (simp only: if_True simp_thms)
  show ?thesis
    by (intro conjI exI [of _ p] exI [of _ q]) (fact h h1 h2 a' a(2) b')+
qed

section \<open>Boundary sequencing\<close>

lemma length_renumber: "length (renumber c vs) = length vs"
  by (induction vs arbitrary: c) simp_all

lemma zeros_Nil: "zeros [] = 0"
  by (simp add: zeros_def)

lemma zeros_Cons: "zeros (v # vs) = (if v = 0 then 1 else 0) + zeros vs"
  by (simp add: zeros_def)

lemma zeros_append: "zeros (us @ vs) = zeros us + zeros vs"
  by (simp add: zeros_def)

lemma zeros_nonneg: "0 \<le> zeros vs"
  by (simp add: zeros_def)

lemma renumber_append:
  "renumber c (us @ vs) = renumber c us @ renumber (c + zeros us) vs"
  by (induction us arbitrary: c) (simp_all add: zeros_Nil zeros_Cons add.assoc)

lemma fold_facenb_step:
  "k \<le> length f \<Longrightarrow>
   fold facenb_step [0..<k] (f, c) = (renumber c (take k f) @ drop k f, c + zeros (take k f))"
proof (induction k)
  case 0
  show ?case by (simp add: zeros_Nil)
next
  case (Suc k)
  then have k: "k < length f" by simp
  have tk: "take (Suc k) f = take k f @ [f ! k]"
    using k by (simp add: take_Suc_conv_app_nth)
  have dk: "drop k f = f ! k # drop (Suc k) f"
    using k by (simp add: Cons_nth_drop_Suc)
  have len: "length (renumber c (take k f)) = k"
    using k by (simp add: length_renumber)
  have nth: "(renumber c (take k f) @ drop k f) ! k = f ! k"
    using len dk by (simp add: nth_append)
  have upd: "(renumber c (take k f) @ drop k f)[k := v] =
             renumber c (take k f) @ v # drop (Suc k) f" for v
    using len dk by (simp add: list_update_append)
  have step: "facenb_step k (renumber c (take k f) @ drop k f, C) =
      (if f ! k = 0 then (renumber c (take k f) @ (- (C + 1)) # drop (Suc k) f, C + 1)
       else (renumber c (take k f) @ drop k f, C))" for C
    by (simp add: facenb_step_def nth upd)
  have "fold facenb_step [0..<Suc k] (f, c) =
        facenb_step k (renumber c (take k f) @ drop k f, c + zeros (take k f))"
    using Suc k by simp
  also have "\<dots> = (renumber c (take (Suc k) f) @ drop (Suc k) f, c + zeros (take (Suc k) f))"
  proof (cases "f ! k = 0")
    case True
    then show ?thesis
      by (simp add: step tk renumber_append zeros_append zeros_Cons zeros_Nil)
  next
    case False
    have a: "facenb_step k (renumber c (take k f) @ drop k f, c + zeros (take k f)) =
             (renumber c (take k f) @ drop k f, c + zeros (take k f))"
      using False by (simp add: step)
    have b: "renumber c (take (Suc k) f) @ drop (Suc k) f = renumber c (take k f) @ drop k f"
      using False by (simp add: tk renumber_append dk [symmetric])
    have c: "zeros (take (Suc k) f) = zeros (take k f)"
      using False by (simp add: tk zeros_append zeros_Cons zeros_Nil)
    show ?thesis by (simp only: a b c)
  qed
  finally show ?case .
qed

lemma nth_renumber:
  "i < length vs \<Longrightarrow>
   renumber c vs ! i = (if vs ! i = 0 then - (c + zeros (take i vs) + 1) else vs ! i)"
proof (induction vs arbitrary: c i)
  case Nil
  then show ?case by simp
next
  case (Cons v vs)
  show ?case
  proof (cases i)
    case 0
    then show ?thesis by (simp add: zeros_Nil)
  next
    case (Suc j)
    then have "j < length vs" using Cons.prems by simp
    from Cons.IH [OF this] show ?thesis
      using Suc by (simp add: zeros_Cons)
  qed
qed

lemma filter_neg_renumber:
  "\<forall>v \<in> set vs. 0 \<le> v \<Longrightarrow> 0 \<le> c \<Longrightarrow>
   filter (\<lambda>v. v < 0) (renumber c vs) = map (\<lambda>k. - (c + 1 + int k)) [0..<nat (zeros vs)]"
proof (induction vs arbitrary: c)
  case Nil
  show ?case by (simp add: zeros_Nil)
next
  case (Cons v vs)
  have ih: "filter (\<lambda>v. v < 0) (renumber d vs) = map (\<lambda>k. - (d + 1 + int k)) [0..<nat (zeros vs)]"
    if "0 \<le> d" for d
    using Cons.IH [of d] Cons.prems that by simp
  show ?case
  proof (cases "v = 0")
    case True
    have n: "nat (zeros (v # vs)) = Suc (nat (zeros vs))"
      using True zeros_nonneg [of vs] by (simp add: zeros_Cons)
    have "map (\<lambda>k. - (c + 1 + int k)) [0..<Suc (nat (zeros vs))] =
          - (c + 1) # map (\<lambda>k. - (c + 1 + 1 + int k)) [0..<nat (zeros vs)]"
      by (simp only: upt_conv_Cons [of 0] map_Suc_upt [symmetric]) (simp add: comp_def)
    then show ?thesis
      using True Cons.prems ih [of "c + 1"] n by simp
  next
    case False
    then have "0 < v" using Cons.prems by simp
    then show ?thesis
      using False Cons.prems ih [of c] by (simp add: zeros_Cons)
  qed
qed

lemma tracer_prep_facenb_eq:
  assumes "length (facenb mesh) = nat (ne mesh * elemlen mesh)"
  shows "tracer_prep_facenb mesh =
         Inr (mesh\<lparr>facenb := renumber 0 (facenb mesh), nf := zeros (facenb mesh)\<rparr>)"
  using assms fold_facenb_step [of "length (facenb mesh)" "facenb mesh" 0]
  by (simp add: tracer_prep_facenb_def)

text \<open>
  Claim C4, as amended. If the face-adjacency array holds no negative entry before the
  pass (its exposed faces are exactly the entries equal to 0), then after the pass
  \<open>nf\<close> is the number of exposed faces, the negative entries of \<open>facenb\<close>, read in array
  order, are \<open>-1, -2, \<dots>, -nf\<close> (so their set is \<open>{-nf, \<dots>, -1}\<close>, without gap or
  duplicate), each entry that was 0 holds minus its rank among the zeros, and every
  other entry is unchanged.
\<close>

theorem boundary_ids_sequential:
  assumes len: "length (facenb mesh) = nat (ne mesh * elemlen mesh)"
    and nonneg: "\<forall>v \<in> set (facenb mesh). 0 \<le> v"
  shows "\<exists>mesh'. tracer_prep_facenb mesh = Inr mesh'
     \<and> nf mesh' = zeros (facenb mesh)
     \<and> filter (\<lambda>v. v < 0) (facenb mesh') = map (\<lambda>k. - (1 + int k)) [0..<nat (nf mesh')]
     \<and> {v \<in> set (facenb mesh'). v < 0} = {- nf mesh'..- 1}
     \<and> distinct (filter (\<lambda>v. v < 0) (facenb mesh'))
     \<and> length (facenb mesh') = length (facenb mesh)
     \<and> (\<forall>i < length (facenb mesh). facenb mesh' ! i =
           (if facenb mesh ! i = 0 then - (zeros (take i (facenb mesh)) + 1)
            else facenb mesh ! i))"
proof -
  let ?f = "facenb mesh"
  let ?K = "zeros ?f"
  let ?m = "mesh\<lparr>facenb := renumber 0 ?f, nf := ?K\<rparr>"
  have flt: "filter (\<lambda>v. v < 0) (renumber 0 ?f) = map (\<lambda>k. - (1 + int k)) [0..<nat ?K]"
    using filter_neg_renumber [OF nonneg, of 0] by simp
  have "set (filter (\<lambda>v. v < 0) (renumber 0 ?f)) = {- ?K..- 1}"
  proof -
    have "(\<lambda>k. - (1 + int k)) ` {0..<nat ?K} = {- ?K..- 1}"
    proof (intro set_eqI iffI)
      fix v assume "v \<in> (\<lambda>k. - (1 + int k)) ` {0..<nat ?K}"
      then show "v \<in> {- ?K..- 1}" by auto
    next
      fix v assume v: "v \<in> {- ?K..- 1}"
      then have "v = - (1 + int (nat (- v - 1)))" "nat (- v - 1) < nat ?K" by auto
      then show "v \<in> (\<lambda>k. - (1 + int k)) ` {0..<nat ?K}" by (metis atLeastLessThan_iff image_eqI le0)
    qed
    then show ?thesis by (simp add: flt)
  qed
  then have st: "{v \<in> set (renumber 0 ?f). v < 0} = {- ?K..- 1}" by simp
  have dist: "distinct (filter (\<lambda>v. v < 0) (renumber 0 ?f))"
    by (simp add: flt distinct_map inj_on_def)
  have nth: "\<forall>i < length ?f. renumber 0 ?f ! i =
       (if ?f ! i = 0 then - (zeros (take i ?f) + 1) else ?f ! i)"
    by (simp add: nth_renumber)
  have "tracer_prep_facenb mesh = Inr ?m"
    by (rule tracer_prep_facenb_eq [OF len])
  moreover have "nf ?m = ?K" by simp
  moreover have "filter (\<lambda>v. v < 0) (facenb ?m) = map (\<lambda>k. - (1 + int k)) [0..<nat (nf ?m)]"
    using flt by simp
  moreover have "{v \<in> set (facenb ?m). v < 0} = {- nf ?m..- 1}" using st by simp
  moreover have "distinct (filter (\<lambda>v. v < 0) (facenb ?m))" using dist by simp
  moreover have "length (facenb ?m) = length ?f" by (simp add: length_renumber)
  moreover have "\<forall>i < length ?f. facenb ?m ! i =
       (if ?f ! i = 0 then - (zeros (take i ?f) + 1) else ?f ! i)"
    using nth by simp
  ultimately show ?thesis by blast
qed

theorem boundary_ids_sequential_witness:
  "length (facenb mesh_w4) = nat (ne mesh_w4 * elemlen mesh_w4)
   \<and> list_all (\<lambda>v. 0 \<le> v) (facenb mesh_w4)
   \<and> (\<exists>mesh'. tracer_prep_facenb mesh_w4 = Inr mesh'
        \<and> nf mesh' = zeros (facenb mesh_w4)
        \<and> {v \<in> set (facenb mesh'). v < 0} = {- nf mesh'..- 1})"
proof -
  have h1: "length (facenb mesh_w4) = nat (ne mesh_w4 * elemlen mesh_w4)"
    by (simp add: mesh_w4_def mesh_init_def)
  have h2: "\<forall>v \<in> set (facenb mesh_w4). 0 \<le> v"
    by (simp add: mesh_w4_def mesh_init_def)
  have h3: "list_all (\<lambda>v. 0 \<le> v) (facenb mesh_w4)"
    by (simp add: mesh_w4_def mesh_init_def)
  show ?thesis
    using boundary_ids_sequential [OF h1 h2] h1 h3 by blast
qed

text \<open>
  Claim C4 as stated fails when an entry is negative before the pass: the pass numbers
  only the entries equal to 0, so with \<open>facenb = [-7, 0, 5, 0]\<close> it ends with \<open>nf = 2\<close>
  and the negative ids \<open>-7, -1, -2\<close>; \<open>-7\<close> is not in \<open>{-2, \<dots>, -1}\<close>.
\<close>

theorem boundary_ids_counterexample:
  "tracer_prep_facenb mesh_c4 = Inr (mesh_c4\<lparr>facenb := [- 7, - 1, 5, - 2], nf := 2\<rparr>)
   \<and> (- 7 :: int) < 0 \<and> \<not> (- 2 \<le> (- 7 :: int))"
  by (simp add: tracer_prep_facenb_def mesh_c4_def mesh_init_def facenb_step_def
      upt_conv_Cons)

section \<open>Effective reflection coefficient\<close>

lemma fold_getreff_step:
  "fold (getreff_step n_in n_out oc x) [0..<n] (a, b) =
     (a + (\<Sum>i < n. 2 * sin (real i * x) * cos (real i * x) * getreff_fres n_in n_out oc (real i * x)),
      b + (\<Sum>i < n. 3 * sin (real i * x) * cos (real i * x) * cos (real i * x)
                       * getreff_fres n_in n_out oc (real i * x)))"
  by (induction n) (simp_all add: getreff_step_def Let_def)

lemma ratio_square_le_1:
  fixes A B :: real
  assumes "0 \<le> A" "0 \<le> B"
  shows "((A - B) / (A + B)) * ((A - B) / (A + B)) \<le> 1"
proof (cases "A + B = 0")
  case True
  then show ?thesis by simp
next
  case False
  then have pos: "0 < A + B" using assms by simp
  have "\<bar>A - B\<bar> \<le> A + B" using assms by simp
  then have "\<bar>(A - B) / (A + B)\<bar> \<le> 1" using pos by (simp add: abs_divide)
  then have "((A - B) / (A + B))\<^sup>2 \<le> 1" by (simp add: abs_square_le_1)
  then show ?thesis by (simp add: power2_eq_square)
qed

lemma critical_angle_n_in:
  assumes "(case fdiv 1 n_in of None \<Rightarrow> None | Some v \<Rightarrow> fasin v) = Some c" "0 \<le> ang" "ang < c"
  shows "1 \<le> n_in \<and> c = arcsin (1 / n_in)"
proof -
  have nz: "n_in \<noteq> 0" using assms(1) by (auto simp: fdiv_def split: if_splits)
  then have r: "- 1 \<le> 1 / n_in" "1 / n_in \<le> 1" and c: "c = arcsin (1 / n_in)"
    using assms(1) by (auto simp: fdiv_def fasin_def split: if_splits)
  have "0 < 1 / n_in"
  proof (rule ccontr)
    assume "\<not> 0 < 1 / n_in"
    then have "1 / n_in \<le> 0" by simp
    then have "arcsin (1 / n_in) \<le> arcsin 0" using r by (intro arcsin_le_arcsin) simp_all
    then show False using assms(2,3) c by simp
  qed
  then have "0 < n_in" by simp
  then have "1 \<le> n_in" using r(2) by (simp add: field_simps)
  then show ?thesis using c by simp
qed

lemma critical_angle_sqrt:
  assumes "(case fdiv 1 n_in of None \<Rightarrow> None | Some v \<Rightarrow> fasin v) = Some c" "0 \<le> ang" "ang < c"
  shows "0 < 1 - n_in * sin ang * (n_in * sin ang)"
proof -
  from critical_angle_n_in [OF assms] have n: "1 \<le> n_in" and c: "c = arcsin (1 / n_in)" by simp_all
  have "0 < 1 / n_in" using n by simp
  then have "- 1 \<le> 1 / n_in" by linarith
  moreover have "1 / n_in \<le> 1" using n by simp
  ultimately have r: "- 1 \<le> 1 / n_in" "1 / n_in \<le> 1" by simp_all
  have cb: "c \<le> pi / 2" unfolding c using r by (rule arcsin_ubound)
  have "sin ang < sin c"
    using assms(2,3) cb by (intro sin_monotone_2pi) simp_all
  also have "sin c = 1 / n_in" unfolding c using r by (rule sin_arcsin)
  finally have lt: "n_in * sin ang < 1" using n by (simp add: field_simps)
  have "0 \<le> sin ang" using assms(2,3) cb by (intro sin_ge_zero) simp_all
  then have ge: "0 \<le> n_in * sin ang" using n by simp
  have "n_in * sin ang * (n_in * sin ang) < 1 * 1"
    using lt ge by (intro mult_strict_mono') simp_all
  then show ?thesis by simp
qed

lemma getreff_fres_bounds:
  assumes "0 \<le> n_out" "0 \<le> ang" "ang \<le> pi / 2"
  shows "0 \<le> getreff_fres n_in n_out (case fdiv 1 n_in of None \<Rightarrow> None | Some v \<Rightarrow> fasin v) ang
       \<and> getreff_fres n_in n_out (case fdiv 1 n_in of None \<Rightarrow> None | Some v \<Rightarrow> fasin v) ang \<le> 1"
proof -
  let ?oc = "case fdiv 1 n_in of None \<Rightarrow> None | Some v \<Rightarrow> fasin v"
  show ?thesis
  proof (cases "case ?oc of None \<Rightarrow> False | Some c \<Rightarrow> ang < c")
    case False
    then show ?thesis by (simp add: getreff_fres_def)
  next
    case True
    then obtain c where c: "?oc = Some c" "ang < c" by (cases ?oc) simp_all
    have n: "1 \<le> n_in" using critical_angle_n_in [OF c(1) assms(2) c(2)] by simp
    have co: "0 \<le> cos ang" using assms(2,3) by (intro cos_ge_zero) simp_all
    define cosop where "cosop = sqrt (1 - n_in * sin ang * (n_in * sin ang))"
    have cp: "0 \<le> cosop"
      using critical_angle_sqrt [OF c(1) assms(2) c(2)] by (simp add: cosop_def)
    define t1 where "t1 = (n_in * cosop - n_out * cos ang) / (n_in * cosop + n_out * cos ang)"
    define t2 where "t2 = (n_in * cos ang - n_out * cosop) / (n_in * cos ang + n_out * cosop)"
    have b1: "t1 * t1 \<le> 1" unfolding t1_def
      using n cp co assms(1) by (intro ratio_square_le_1) simp_all
    have b2: "t2 * t2 \<le> 1" unfolding t2_def
      using n cp co assms(1) by (intro ratio_square_le_1) simp_all
    have eq: "getreff_fres n_in n_out ?oc ang = 0.5 * t1 * t1 + 0.5 * t2 * t2"
      unfolding getreff_fres_def Let_def t1_def t2_def cosop_def
      using True by (simp only: if_True)
    have "0 \<le> t1 * t1" "0 \<le> t2 * t2" by simp_all
    then show ?thesis using b1 b2 unfolding eq by simp
  qed
qed

lemma getreff_divisors_pos:
  assumes "0 < n_out" "0 \<le> ang" "ang < pi / 2"
    and "(case fdiv 1 n_in of None \<Rightarrow> None | Some v \<Rightarrow> fasin v) = Some c" "ang < c"
  shows "0 < n_in * sqrt (1 - n_in * sin ang * (n_in * sin ang)) + n_out * cos ang
       \<and> 0 < n_in * cos ang + n_out * sqrt (1 - n_in * sin ang * (n_in * sin ang))"
proof -
  have n: "1 \<le> n_in" using critical_angle_n_in [OF assms(4,2,5)] by simp
  have s: "0 < sqrt (1 - n_in * sin ang * (n_in * sin ang))"
    using critical_angle_sqrt [OF assms(4,2,5)] by simp
  have co: "0 < cos ang" using assms(2,3) by (intro cos_gt_zero_pi) simp_all
  have "0 < n_in * sqrt (1 - n_in * sin ang * (n_in * sin ang))" using n s by simp
  moreover have "0 < n_out * cos ang" using assms(1) co by simp
  moreover have "0 < n_in * cos ang" using n co by simp
  moreover have "0 < n_out * sqrt (1 - n_in * sin ang * (n_in * sin ang))" using assms(1) s by simp
  ultimately show ?thesis by simp
qed

lemma sin_sum_telescope:
  "2 * sin x * (\<Sum>i < n. sin (2 * real i * x)) = cos x - cos ((2 * real n - 1) * x)"
proof (induction n)
  case 0
  have "cos ((2 * real 0 - 1) * x) = cos x" by simp
  then show ?case by simp
next
  case (Suc n)
  have "sin (2 * real n * x) * sin x = (cos (2 * real n * x - x) - cos (2 * real n * x + x)) / 2"
    by (rule sin_times_sin)
  moreover have "2 * real n * x - x = (2 * real n - 1) * x" by (simp add: algebra_simps)
  moreover have "2 * real n * x + x = (2 * real (Suc n) - 1) * x" by (simp add: algebra_simps)
  ultimately have step: "2 * sin x * sin (2 * real n * x) =
      cos ((2 * real n - 1) * x) - cos ((2 * real (Suc n) - 1) * x)"
    by (simp add: mult_ac)
  have "2 * sin x * (\<Sum>i < Suc n. sin (2 * real i * x)) =
        2 * sin x * (\<Sum>i < n. sin (2 * real i * x)) + 2 * sin x * sin (2 * real n * x)"
    by (simp add: algebra_simps)
  also have "\<dots> = cos x - cos ((2 * real (Suc n) - 1) * x)"
    unfolding Suc.IH step by simp
  finally show ?case .
qed

lemma x_cos_less_sin:
  assumes "0 < x" "x < pi"
  shows "x * cos x < sin x"
proof -
  define f where "f = (\<lambda>t :: real. sin t - t * cos t)"
  have d: "DERIV f t :> t * sin t" for t
    unfolding f_def by (auto intro!: derivative_eq_intros)
  have "f 0 \<le> f (x / 2)"
  proof (rule DERIV_nonneg_imp_nondecreasing [of 0 "x / 2" f])
    show "0 \<le> x / 2" using assms by simp
  next
    fix t assume "0 \<le> t" "t \<le> x / 2"
    then have "0 \<le> sin t" using assms by (intro sin_ge_zero) simp_all
    then have "0 \<le> t * sin t" using \<open>0 \<le> t\<close> by simp
    then show "\<exists>y. DERIV f t :> y \<and> 0 \<le> y" using d by blast
  qed
  moreover have "f (x / 2) < f x"
  proof (rule DERIV_pos_imp_increasing [of "x / 2" x f])
    show "x / 2 < x" using assms by simp
  next
    fix t assume t: "x / 2 \<le> t" "t \<le> x"
    then have "0 < t" "t < pi" using assms by simp_all
    then have "0 < sin t" by (intro sin_gt_zero)
    then have "0 < t * sin t" using \<open>0 < t\<close> by simp
    then show "\<exists>y. DERIV f t :> y \<and> 0 < y" using d by blast
  qed
  ultimately have "f 0 < f x" by simp
  then show ?thesis by (simp add: f_def)
qed

lemma riemann_sin_less_1:
  "pi / 2000 * (\<Sum>i < 1000. sin (2 * real i * (pi / 2000))) < 1"
proof -
  define x :: real where "x = pi / 2000"
  have x: "0 < x" "x < pi" by (simp_all add: x_def)
  have sx: "0 < sin x" using x by (intro sin_gt_zero)
  have "(2 * real (1000 :: nat) - 1) * x = pi - x" by (simp add: x_def)
  then have "cos ((2 * real (1000 :: nat) - 1) * x) = - cos x" by (simp only: cos_pi_minus)
  with sin_sum_telescope [of x 1000]
  have "2 * sin x * (\<Sum>i < 1000. sin (2 * real i * x)) = 2 * cos x" by simp
  then have "sin x * (\<Sum>i < 1000. sin (2 * real i * x)) = cos x" by simp
  then have "(\<Sum>i < 1000. sin (2 * real i * x)) = cos x / sin x"
    using sx by (simp add: field_simps)
  then have "x * (\<Sum>i < 1000. sin (2 * real i * x)) = x * cos x / sin x" by simp
  also have "\<dots> < 1" using x_cos_less_sin [OF x] sx by simp
  finally show ?thesis by (simp add: x_def)
qed

lemma getreff_angle:
  assumes "i < (1000 :: nat)"
  shows "0 \<le> real i * (pi / 2000) \<and> real i * (pi / 2000) < pi / 2"
proof -
  have "real i < 1000" using assms by simp
  then have "real i * (pi / 2000) < 1000 * (pi / 2000)"
    by (intro mult_strict_right_mono) simp_all
  then show ?thesis by simp
qed

lemma mesh_getreff_sums:
  fixes n_in n_out :: real
  defines "x \<equiv> pi / 2000"
    and "oc \<equiv> (case fdiv 1 n_in of None \<Rightarrow> None | Some v \<Rightarrow> fasin v)"
  defines "P \<equiv> (\<Sum>i < 1000. 2 * sin (real i * x) * cos (real i * x) * getreff_fres n_in n_out oc (real i * x))"
    and "J \<equiv> (\<Sum>i < 1000. 3 * sin (real i * x) * cos (real i * x) * cos (real i * x)
                     * getreff_fres n_in n_out oc (real i * x))"
  assumes n_out: "0 \<le> n_out"
  shows "mesh_getreff n_in n_out = (P * x + J * x) / (2 - P * x + J * x)"
    and "0 \<le> P * x" and "P * x < 1" and "0 \<le> J * x"
proof -
  define F where "F = (\<lambda>i :: nat. getreff_fres n_in n_out oc (real i * x))"
  have Fi: "getreff_fres n_in n_out oc (real i * x) = F i" for i by (simp add: F_def)
  have x0: "0 < x" by (simp add: x_def)
  have ang: "0 \<le> real i * x \<and> real i * x < pi / 2" if "i < 1000" for i
    using getreff_angle [OF that] by (simp add: x_def)
  have F: "0 \<le> F i \<and> F i \<le> 1" if "i < 1000" for i
    using getreff_fres_bounds [OF n_out, of "real i * x" n_in] ang [OF that]
    by (simp add: F_def oc_def)
  have s: "0 \<le> sin (real i * x)" if "i < 1000" for i
    using ang [OF that] by (intro sin_ge_zero) simp_all
  have c: "0 \<le> cos (real i * x)" if "i < 1000" for i
    using ang [OF that] by (intro cos_ge_zero) simp_all
  have P0: "0 \<le> P" unfolding P_def Fi
    using s c F by (intro sum_nonneg mult_nonneg_nonneg) simp_all
  have J0: "0 \<le> J" unfolding J_def Fi
    using s c F by (intro sum_nonneg mult_nonneg_nonneg) simp_all
  have "P \<le> (\<Sum>i < 1000. sin (2 * real i * x))" unfolding P_def Fi
  proof (rule sum_mono)
    fix i assume "i \<in> {..<1000 :: nat}"
    then have i: "i < 1000" by simp
    have "2 * sin (real i * x) * cos (real i * x) * F i \<le> 2 * sin (real i * x) * cos (real i * x) * 1"
      using s [OF i] c [OF i] F [OF i] by (intro mult_left_mono mult_nonneg_nonneg) simp_all
    also have "\<dots> = sin (2 * real i * x)"
      using sin_double [of "real i * x"] by (simp add: mult.assoc)
    finally show "2 * sin (real i * x) * cos (real i * x) * F i \<le> sin (2 * real i * x)" .
  qed
  then have "P * x \<le> x * (\<Sum>i < 1000. sin (2 * real i * x))"
    using x0 by (simp add: mult.commute)
  also have "\<dots> < 1" using riemann_sin_less_1 by (simp add: x_def)
  finally show "P * x < 1" .
  show "0 \<le> P * x" and "0 \<le> J * x" using P0 J0 x0 by simp_all
  show "mesh_getreff n_in n_out = (P * x + J * x) / (2 - P * x + J * x)"
    by (simp add: mesh_getreff_def Let_def fold_getreff_step P_def J_def oc_def x_def)
qed

lemma reff_ratio_bounds:
  fixes p j :: real
  assumes "0 \<le> p" "p < 1" "0 \<le> j"
  shows "0 \<le> (p + j) / (2 - p + j)" and "(p + j) / (2 - p + j) < 1"
    and "3 / 8 \<le> p \<Longrightarrow> 1 / 5 < (p + j) / (2 - p + j)"
proof -
  have den: "0 < 2 - p + j" using assms by linarith
  show "0 \<le> (p + j) / (2 - p + j)" using assms den by (intro divide_nonneg_pos) simp_all
  show "(p + j) / (2 - p + j) < 1" using den assms by (simp add: field_simps)
  show "1 / 5 < (p + j) / (2 - p + j)" if "3 / 8 \<le> p"
    using den assms that by (simp add: field_simps)
qed

text \<open>
  For a non-negative outer index the quadrature lies in \<open>[0, 1)\<close>, whatever the inner index.
\<close>

lemma mesh_getreff_bounds:
  assumes "0 \<le> n_out"
  shows "0 \<le> mesh_getreff n_in n_out \<and> mesh_getreff n_in n_out < 1"
  using mesh_getreff_sums [OF assms, of n_in] reff_ratio_bounds(1,2) by presburger

lemma mesh_getreff_matched_air: "mesh_getreff 1 1 = 0"
proof -
  define x :: real where "x = pi / 2000"
  have oc: "(case fdiv 1 1 of None \<Rightarrow> None | Some v \<Rightarrow> fasin v) = Some (pi / 2)"
    by (simp add: fdiv_def fasin_def)
  have F: "getreff_fres 1 1 (Some (pi / 2)) (real i * x) = 0" if "i < 1000" for i
  proof -
    have a: "0 \<le> real i * x" "real i * x < pi / 2"
      using getreff_angle [OF that] by (simp_all add: x_def)
    have c: "0 \<le> cos (real i * x)" using a by (intro cos_ge_zero) simp_all
    have "1 - sin (real i * x) * sin (real i * x) = (cos (real i * x))\<^sup>2"
      using sin_cos_squared_add [of "real i * x"] by (simp add: power2_eq_square algebra_simps)
    then have "sqrt (1 - sin (real i * x) * sin (real i * x)) = cos (real i * x)"
      using c by simp
    then show ?thesis using a by (simp add: getreff_fres_def Let_def)
  qed
  have s1: "(\<Sum>i < 1000. 2 * sin (real i * x) * cos (real i * x) * getreff_fres 1 1 (Some (pi / 2)) (real i * x)) = 0"
    by (rule sum.neutral) (simp add: F)
  have s2: "(\<Sum>i < 1000. 3 * sin (real i * x) * cos (real i * x) * cos (real i * x)
      * getreff_fres 1 1 (Some (pi / 2)) (real i * x)) = 0"
    by (rule sum.neutral) (simp add: F)
  show ?thesis
    using s1 [unfolded x_def] s2 [unfolded x_def]
    by (simp add: mesh_getreff_def Let_def oc fold_getreff_step)
qed

lemma pi_ge_3: "3 \<le> pi"
proof -
  have "sin (pi / 6) \<le> pi / 6" by (rule sin_x_le_x) simp
  then show ?thesis by (simp add: sin_30)
qed

lemma sin_ge_half:
  assumes "pi / 6 \<le> t" "t \<le> 5 * pi / 6"
  shows "1 / 2 \<le> sin t"
proof (cases "t \<le> pi / 2")
  case True
  have "sin (pi / 6) \<le> sin t"
    using assms(1) True by (intro sin_monotone_2pi_le) simp_all
  then show ?thesis by (simp add: sin_30)
next
  case False
  have "sin (pi / 6) \<le> sin (pi - t)"
    using assms(2) False by (intro sin_monotone_2pi_le) simp_all
  then show ?thesis by (simp add: sin_30)
qed


lemma critical_angle_2: "(case fdiv 1 2 of None \<Rightarrow> None | Some v \<Rightarrow> fasin v) = Some (pi / 6)"
proof -
  have "arcsin (sin (pi / 6)) = pi / 6" by (rule arcsin_sin) simp_all
  then have "arcsin (1 / 2) = pi / 6" by (simp add: sin_30)
  then show ?thesis by (simp add: fdiv_def fasin_def)
qed

text \<open>
  Claim C5 at equal indices. For \<open>n_in = n_out = 2\<close> the critical angle is \<open>\<pi>/6\<close>: the
  667 steps beyond it count a reflectance of 1, since the angle of refraction is taken
  from \<open>n_in\<close> alone. The quadrature returns more than \<open>1/5\<close>, not a value near 0.
\<close>

theorem mesh_getreff_equal_indices: "1 / 5 < mesh_getreff 2 2"
proof -
  define x :: real where "x = pi / 2000"
  define F where "F = (\<lambda>i :: nat. getreff_fres 2 2 (Some (pi / 6)) (real i * x))"
  define P where "P = (\<Sum>i < 1000. 2 * sin (real i * x) * cos (real i * x)
      * getreff_fres 2 2 (Some (pi / 6)) (real i * x))"
  define J where "J = (\<Sum>i < 1000. 3 * sin (real i * x) * cos (real i * x) * cos (real i * x)
      * getreff_fres 2 2 (Some (pi / 6)) (real i * x))"
  have Fi: "getreff_fres 2 2 (Some (pi / 6)) (real i * x) = F i" for i by (simp add: F_def)
  note sums = mesh_getreff_sums [of 2 2, unfolded critical_angle_2, folded x_def,
      folded P_def J_def]
  have val: "mesh_getreff 2 2 = (P * x + J * x) / (2 - P * x + J * x)"
    and Px0: "0 \<le> P * x" and Px1: "P * x < 1" and Jx0: "0 \<le> J * x"
    using sums by simp_all
  have x0: "0 < x" by (simp add: x_def)
  have ang: "0 \<le> real i * x \<and> real i * x < pi / 2" if "i < 1000" for i
    using getreff_angle [OF that] by (simp add: x_def)
  have Fb: "0 \<le> F i" if "i < 1000" for i
    using getreff_fres_bounds [of 2 "real i * x" 2] ang [OF that]
    unfolding critical_angle_2 F_def by simp
  have term0: "0 \<le> 2 * sin (real i * x) * cos (real i * x) * F i" if "i < 1000" for i
  proof -
    have "0 \<le> sin (real i * x)" using ang [OF that] by (intro sin_ge_zero) simp_all
    moreover have "0 \<le> cos (real i * x)" using ang [OF that] by (intro cos_ge_zero) simp_all
    ultimately show ?thesis using Fb [OF that] by simp
  qed
  have big: "1 / 2 \<le> 2 * sin (real i * x) * cos (real i * x) * F i" if i: "334 \<le> i" "i < 834" for i
  proof -
    have r: "334 \<le> real i" "real i \<le> 833" using i by simp_all
    have lo: "pi / 6 < real i * x"
    proof -
      have "pi / 6 < 334 * x" by (simp add: x_def)
      also have "\<dots> \<le> real i * x" using r(1) x0 by (intro mult_right_mono) simp_all
      finally show ?thesis .
    qed
    then have "F i = 1" by (simp add: F_def getreff_fres_def)
    moreover have "1 / 2 \<le> sin (2 * (real i * x))"
    proof (rule sin_ge_half)
      have "0 \<le> real i * x" using x0 by simp
      then show "pi / 6 \<le> 2 * (real i * x)" using lo by linarith
      have "real i * x \<le> 833 * x" using r(2) x0 by (intro mult_right_mono) simp_all
      then show "2 * (real i * x) \<le> 5 * pi / 6" by (simp add: x_def)
    qed
    ultimately show ?thesis using sin_double [of "real i * x"] by simp
  qed
  have "(\<Sum>i \<in> {334..<834 :: nat}. (1 / 2 :: real)) \<le>
        (\<Sum>i \<in> {334..<834}. 2 * sin (real i * x) * cos (real i * x) * F i)"
  proof (rule sum_mono)
    fix i :: nat assume "i \<in> {334..<834}"
    then have "334 \<le> i" "i < 834" by simp_all
    then show "1 / 2 \<le> 2 * sin (real i * x) * cos (real i * x) * F i" by (rule big)
  qed
  also have "\<dots> \<le> P" unfolding P_def Fi
  proof (rule sum_mono2)
    show "finite {..<1000 :: nat}" by simp
    show "{334..<834} \<subseteq> {..<1000 :: nat}" by auto
    fix b :: nat assume "b \<in> {..<1000} - {334..<834}"
    then have "b < 1000" by simp
    then show "0 \<le> 2 * sin (real b * x) * cos (real b * x) * F b" by (rule term0)
  qed
  finally have "250 \<le> P" by simp
  then have "250 * x \<le> P * x" using x0 by simp
  moreover have "3 / 8 \<le> 250 * x" using pi_ge_3 by (simp add: x_def)
  ultimately have "3 / 8 \<le> P * x" by linarith
  from reff_ratio_bounds(3) [OF Px0 Px1 Jx0 this] show ?thesis unfolding val .
qed

section \<open>Normalisation to energy\<close>

lemma length_upd_at: "length (upd_at f k w) = length w"
  by (simp add: upd_at_def)

lemma length_scale_inner:
  "length (fold (\<lambda>j. upd_at f (g j)) js w) = length w"
  by (induction js arbitrary: w) (simp_all add: length_upd_at)

lemma length_mult_inner:
  "length (fold (\<lambda>j w. w[m j := w ! m j * c]) js (w :: real list)) = length w"
  by (induction js arbitrary: w) simp_all

lemma length_mult_outer:
  "length (fold (\<lambda>i. fold (\<lambda>j w. w[m i j := w ! m i j * c]) js) is (w :: real list)) = length w"
  by (induction "is" arbitrary: w) (simp_all add: length_mult_inner)

lemma length_scale_weight: "length (scale_weight mg datalen srcn pr c w) = length w"
proof -
  have "length (fold (\<lambda>i. fold (\<lambda>j. upd_at f (g i j)) js) is w) = length w" for f g js "is"
    by (induction "is" arbitrary: w) (simp_all add: length_scale_inner)
  then show ?thesis by (simp add: scale_weight_def)
qed

lemma widx_nat:
  assumes "0 \<le> datalen" "0 \<le> srcn" "0 \<le> pr"
  shows "nat (widx datalen srcn pr i j) = (i * nat datalen + j) * nat srcn + nat pr"
proof -
  obtain D S p where e: "datalen = int D" "srcn = int S" "pr = int p"
    using assms by (metis nonneg_int_cases)
  have "widx (int D) (int S) (int p) i j = int ((i * D + j) * S + p)"
    by (simp add: widx_def)
  then show ?thesis unfolding e by (simp only: nat_int)
qed

lemma upd_at_widx:
  assumes "0 \<le> datalen" "0 \<le> srcn" "0 \<le> pr"
  shows "upd_at f (widx datalen srcn pr i j) =
         (\<lambda>w. w[(i * nat datalen + j) * nat srcn + nat pr :=
                 f (w ! ((i * nat datalen + j) * nat srcn + nat pr))])"
  unfolding upd_at_def widx_nat [OF assms] by (rule refl)

lemma flat_index_div_mod:
  fixes S :: nat
  assumes "p < S"
  shows "(k = q * S + p) = (k mod S = p \<and> k div S = q)"
proof
  assume "k = q * S + p"
  then show "k mod S = p \<and> k div S = q" using assms by simp
next
  assume "k mod S = p \<and> k div S = q"
  then show "k = q * S + p" using div_mult_mod_eq [of k S] by auto
qed

text \<open>
  The inner loop, then the outer loop: after the pairs \<open>(i, j)\<close> below the bound, the
  entries of the selected pattern whose bin \<open>k div S\<close> is below the bound are scaled.
\<close>

lemma mult_at_other:
  fixes w :: "real list"
  assumes "\<forall>j \<in> set js. m j \<noteq> n"
  shows "fold (\<lambda>j w. w[m j := w ! m j * c]) js w ! n = w ! n"
  using assms by (induction js arbitrary: w) simp_all

lemma scale_inner_nth:
  fixes D S p :: nat and c :: real
  assumes p: "p < S" and J: "J \<le> D" and inb: "(i * D + D) * S \<le> length w" and k: "k < length w"
  shows "fold (\<lambda>j w. w[(i * D + j) * S + p := w ! ((i * D + j) * S + p) * c]) [0..<J] w ! k =
         (if k mod S = p \<and> i * D \<le> k div S \<and> k div S < i * D + J then w ! k * c else w ! k)"
  using J
proof (induction J)
  case 0
  show ?case by simp
next
  case (Suc J)
  let ?f = "\<lambda>j w. w[(i * D + j) * S + p := w ! ((i * D + j) * S + p) * c]"
  let ?w = "fold ?f [0..<J] w"
  let ?m = "(i * D + J) * S + p"
  have len: "length ?w = length w" by (rule length_mult_inner)
  have md: "?m mod S = p" "?m div S = i * D + J" using p by simp_all
  have ihk: "?w ! k = (if k mod S = p \<and> i * D \<le> k div S \<and> k div S < i * D + J then w ! k * c else w ! k)"
    using Suc.IH Suc.prems by simp
  have wm: "?w ! ?m = w ! ?m"
  proof (rule mult_at_other)
    show "\<forall>j \<in> set [0..<J]. (i * D + j) * S + p \<noteq> ?m" using p by simp
  qed
  have step: "fold ?f [0..<Suc J] w = ?w[?m := ?w ! ?m * c]" by simp
  show ?case
  proof (cases "k = ?m")
    case True
    have "fold ?f [0..<Suc J] w ! k = w ! ?m * c"
      unfolding step using True k len wm by simp
    moreover have "k mod S = p \<and> i * D \<le> k div S \<and> k div S < i * D + Suc J"
      unfolding True md by simp
    ultimately show ?thesis using True by simp
  next
    case False
    have nk: "\<not> (k mod S = p \<and> k div S = i * D + J)"
      using False flat_index_div_mod [OF p, of k "i * D + J"] by simp
    have "fold ?f [0..<Suc J] w ! k = ?w ! k"
      unfolding step using False by simp
    moreover have "(k mod S = p \<and> i * D \<le> k div S \<and> k div S < i * D + Suc J) =
               (k mod S = p \<and> i * D \<le> k div S \<and> k div S < i * D + J)"
      using nk by auto
    ultimately show ?thesis using ihk by simp
  qed
qed

lemma scale_outer_nth:
  fixes D S p :: nat and c :: real
  assumes p: "p < S" and I: "I \<le> M" and inb: "M * D * S \<le> length w" and k: "k < length w"
  shows "fold (\<lambda>i. fold (\<lambda>j. (\<lambda>w. w[(i * D + j) * S + p := w ! ((i * D + j) * S + p) * c])) [0..<D]) [0..<I] w ! k =
         (if k mod S = p \<and> k div S < I * D then w ! k * c else w ! k)"
  using I
proof (induction I)
  case 0
  show ?case by simp
next
  case (Suc I)
  let ?w = "fold (\<lambda>i. fold (\<lambda>j. (\<lambda>w. w[(i * D + j) * S + p := w ! ((i * D + j) * S + p) * c])) [0..<D]) [0..<I] w"
  have len: "length ?w = length w" by (rule length_mult_outer)
  have "(I * D + D) * S = Suc I * D * S" by (simp add: algebra_simps)
  also have "\<dots> \<le> M * D * S" using Suc.prems by (intro mult_le_mono1) simp
  also have "\<dots> \<le> length ?w" using inb len by simp
  finally have inb': "(I * D + D) * S \<le> length ?w" .
  have k': "k < length ?w" using k len by simp
  have "fold (\<lambda>i. fold (\<lambda>j. (\<lambda>w. w[(i * D + j) * S + p := w ! ((i * D + j) * S + p) * c])) [0..<D]) [0..<Suc I] w ! k =
        fold (\<lambda>j. (\<lambda>w. w[(I * D + j) * S + p := w ! ((I * D + j) * S + p) * c])) [0..<D] ?w ! k"
    by simp
  also have "\<dots> = (if k mod S = p \<and> I * D \<le> k div S \<and> k div S < I * D + D then ?w ! k * c else ?w ! k)"
    by (rule scale_inner_nth [OF p le_refl inb' k'])
  also have "\<dots> = (if k mod S = p \<and> k div S < Suc I * D then w ! k * c else w ! k)"
    using Suc.IH Suc.prems by (auto simp: algebra_simps)
  finally show ?case .
qed

lemma scale_weight_nth:
  assumes "0 \<le> datalen" "0 \<le> pr" "pr < srcn"
    and len: "int (length w) = mg * datalen * srcn" and k: "k < length w"
  shows "scale_weight mg datalen srcn pr c w ! k =
         (if int k mod srcn = pr then w ! k * c else w ! k)"
proof -
  define M D S p where "M = nat mg" and "D = nat datalen" and "S = nat srcn" and "p = nat pr"
  have p: "p < S" using assms(2,3) by (simp add: p_def S_def)
  have S0: "0 < S" using p by simp
  have sw: "scale_weight mg datalen srcn pr c w =
        fold (\<lambda>i. fold (\<lambda>j. (\<lambda>w. w[(i * D + j) * S + p := w ! ((i * D + j) * S + p) * c])) [0..<D]) [0..<M] w"
  proof -
    have s0: "0 \<le> srcn" using assms(2,3) by simp
    show ?thesis
      unfolding scale_weight_def upd_at_widx [OF assms(1) s0 assms(2)] M_def D_def S_def p_def
      by (rule refl)
  qed
  have mg: "0 \<le> mg \<or> length w = 0"
  proof (rule ccontr)
    assume "\<not> (0 \<le> mg \<or> length w = 0)"
    then have "mg < 0" "0 < int (length w)" by simp_all
    moreover have "0 \<le> datalen * srcn" using assms(1-3) by simp
    ultimately have "mg * (datalen * srcn) \<le> 0" by (simp add: mult_nonpos_nonneg)
    then show False using len \<open>0 < int (length w)\<close> by (simp add: mult.assoc)
  qed
  with k have mg0: "0 \<le> mg" by auto
  have L: "length w = M * D * S"
  proof -
    have "int (length w) = int (M * D * S)"
      using len mg0 assms(1-3) by (simp add: M_def D_def S_def)
    then show ?thesis by (simp only: of_nat_eq_iff)
  qed
  have "k div S < M * D"
  proof -
    have "k < (M * D) * S" using k L by simp
    then show ?thesis using S0 by (simp add: less_mult_imp_div_less)
  qed
  moreover have "(int k mod srcn = pr) = (k mod S = p)"
  proof -
    have "int k mod srcn = int (k mod S)" using assms(2,3) by (simp add: S_def zmod_int)
    moreover have "pr = int p" using assms(2) by (simp add: p_def)
    ultimately show ?thesis by simp
  qed
  ultimately show ?thesis
    unfolding sw using scale_outer_nth [OF p le_refl, of M D w k c] L k by simp
qed

lemma widx_ok_full:
  assumes "0 \<le> datalen" "0 \<le> pr" "pr < srcn" and len: "int n = mg * datalen * srcn"
  shows "widx_ok mg datalen srcn pr n"
proof -
  have "0 \<le> widx datalen srcn pr i j \<and> widx datalen srcn pr i j < int n"
    if i: "i < nat mg" and j: "j < nat datalen" for i j
  proof -
    have s: "0 < srcn" using assms(2,3) by simp
    have lo: "0 \<le> widx datalen srcn pr i j"
      using assms(1,2) s by (simp add: widx_def)
    have "int i + 1 \<le> mg" using i by simp
    then have "(int i + 1) * datalen \<le> mg * datalen"
      using assms(1) by (intro mult_right_mono) simp_all
    moreover have "int i * datalen + int j + 1 \<le> (int i + 1) * datalen"
      using j by (simp add: algebra_simps)
    ultimately have "int i * datalen + int j + 1 \<le> mg * datalen" by linarith
    then have "(int i * datalen + int j + 1) * srcn \<le> mg * datalen * srcn"
      using s by (intro mult_right_mono) simp_all
    moreover have "widx datalen srcn pr i j < (int i * datalen + int j + 1) * srcn"
      using assms(3) by (simp add: widx_def algebra_simps)
    ultimately show ?thesis using lo len by linarith
  qed
  then show ?thesis by (simp add: widx_ok_def list_all_iff)
qed

lemma normalize_dref_weight:
  assumes "dref_ok mesh cfg"
  shows "\<exists>mesh1. normalize_dref mesh cfg Etotal = Inr mesh1 \<and> weight mesh1 = weight mesh"
  using assms by (auto simp: normalize_dref_def dref_ok_def split: option.splits)

text \<open>
  Claim C6. With the output type energy and a total launched weight that is not 0,
  \<^verbatim>\<open>mesh_normalize\<close> returns \<open>1/Etotal\<close>, multiplies by it every entry of the weight
  accumulator that belongs to the source pattern \<open>pair\<close> (the indices congruent to
  \<open>pair\<close> modulo \<open>srcnum\<close>), and leaves the entries of the other patterns as they were.
  The accumulator has \<open>maxgate * datalen * srcnum\<close> entries, as allocated.
\<close>

theorem normalize_energy:
  assumes energy: "outputtype cfg = otEnergy" and total: "Etotal \<noteq> 0"
    and pair: "0 \<le> pair" "pair < srcnum cfg"
    and datalen: "0 \<le> normalize_datalen mesh cfg"
    and len: "int (length (weight mesh)) = maxgate cfg * normalize_datalen mesh cfg * srcnum cfg"
    and dref: "dref_ok mesh cfg"
  shows "\<exists>mesh'. mesh_normalize K mesh cfg Eabsorb Etotal pair = Inr (mesh', 1 / Etotal)
     \<and> length (weight mesh') = length (weight mesh)
     \<and> (\<forall>k < length (weight mesh). weight mesh' ! k =
           (if int k mod srcnum cfg = pair then weight mesh ! k * (1 / Etotal) else weight mesh ! k))"
proof -
  from normalize_dref_weight [OF dref, of Etotal] obtain mesh1 where
    d: "normalize_dref mesh cfg Etotal = Inr mesh1" and w1: "weight mesh1 = weight mesh" by blast
  let ?w = "scale_weight (maxgate cfg) (normalize_datalen mesh cfg) (srcnum cfg) pair (1 / Etotal) (weight mesh)"
  have ok: "widx_ok (maxgate cfg) (normalize_datalen mesh cfg) (srcnum cfg) pair (length (weight mesh))"
    by (rule widx_ok_full [OF datalen pair len])
  have ret: "mesh_normalize K mesh cfg Eabsorb Etotal pair = Inr (mesh1\<lparr>weight := ?w\<rparr>, 1 / Etotal)"
    using energy ok by (simp add: mesh_normalize_def Let_def d w1)
  have "length ?w = length (weight mesh)" by (rule length_scale_weight)
  moreover have "?w ! k = (if int k mod srcnum cfg = pair then weight mesh ! k * (1 / Etotal) else weight mesh ! k)"
    if "k < length (weight mesh)" for k
    by (rule scale_weight_nth [OF datalen pair len that])
  ultimately show ?thesis using ret by simp
qed

theorem normalize_energy_witness:
  "outputtype cfg_w6 = otEnergy \<and> (4 :: real) \<noteq> 0 \<and> dref_ok mesh_w6 cfg_w6
   \<and> int (length (weight mesh_w6)) = maxgate cfg_w6 * normalize_datalen mesh_w6 cfg_w6 * srcnum cfg_w6
   \<and> (\<exists>mesh'. mesh_normalize const_w mesh_w6 cfg_w6 1 4 1 = Inr (mesh', 1 / 4)
        \<and> length (weight mesh') = length (weight mesh_w6)
        \<and> weight mesh' ! 3 = weight mesh_w6 ! 3 * (1 / 4) \<and> weight mesh' ! 2 = weight mesh_w6 ! 2)"
proof -
  have h1: "outputtype cfg_w6 = otEnergy" by (simp add: cfg_w6_def)
  have h2: "(4 :: real) \<noteq> 0" by simp
  have h3: "(0 :: int) \<le> 1" "1 < srcnum cfg_w6" by (simp_all add: cfg_w6_def)
  have h4: "0 \<le> normalize_datalen mesh_w6 cfg_w6"
    by (simp add: normalize_datalen_def cfg_w6_def cfg_w_def mesh_w6_def mesh_init_def)
  have h5: "int (length (weight mesh_w6)) = maxgate cfg_w6 * normalize_datalen mesh_w6 cfg_w6 * srcnum cfg_w6"
    by (simp add: normalize_datalen_def cfg_w6_def cfg_w_def mesh_w6_def mesh_init_def)
  have h6: "dref_ok mesh_w6 cfg_w6" by (simp add: dref_ok_def mesh_w6_def mesh_init_def)
  have l: "(3 :: nat) < length (weight mesh_w6)" "(2 :: nat) < length (weight mesh_w6)"
    by (simp_all add: mesh_w6_def mesh_init_def)
  have m: "int 3 mod srcnum cfg_w6 = 1" "int 2 mod srcnum cfg_w6 \<noteq> 1" by (simp_all add: cfg_w6_def)
  from normalize_energy [OF h1 h2 h3 h4 h5 h6, of const_w 1] obtain mesh' where
    r: "mesh_normalize const_w mesh_w6 cfg_w6 1 4 1 = Inr (mesh', 1 / 4)"
    "length (weight mesh') = length (weight mesh_w6)"
    and a: "\<forall>k < length (weight mesh_w6). weight mesh' ! k =
           (if int k mod srcnum cfg_w6 = 1 then weight mesh_w6 ! k * (1 / 4) else weight mesh_w6 ! k)"
    by blast
  have v3: "weight mesh' ! 3 = weight mesh_w6 ! 3 * (1 / 4)" using a l(1) m(1) by simp
  have v2: "weight mesh' ! 2 = weight mesh_w6 ! 2" using a l(2) m(2) by simp
  show ?thesis
    by (intro conjI exI [of _ mesh']) (fact h1 h2 h5 h6 r v3 v2)+
qed

subsection \<open>Source and detector elements\<close>

lemma region_ids_Suc:
  "region_ids ty v (Suc k) = region_ids ty v k @ (if ty ! k = v then [int k + 1] else [])"
  by (simp add: region_ids_def)

lemma region_ids_mono:
  assumes "j \<le> n"
  shows "length (region_ids ty v j) \<le> length (region_ids ty v n)"
proof -
  have "[0..<n] = [0..<j] @ [j..<n]"
    using assms by (metis le_add_diff_inverse upt_add_eq_append zero_le)
  thus ?thesis by (simp add: region_ids_def)
qed

lemma region_ids_mem:
  "i < n \<Longrightarrow> ty ! i = v \<Longrightarrow> int i + 1 \<in> set (region_ids ty v n)"
  by (simp add: region_ids_def)

lemma region_ids_empty:
  "region_ids ty v n = [] \<Longrightarrow> i < n \<Longrightarrow> ty ! i \<noteq> v"
  using region_ids_mem [of i n ty v] by auto

lemma srcdet_count_fold:
  "\<exists>c. fold (srcdet_count ty) [0..<k] (0, 0, cfg)
        = (int (length (region_ids ty (- 1) k)), int (length (region_ids ty (- 2) k)), c)
      \<and> (nout c = nout cfg \<and> medianum c = medianum cfg \<and> cfg_prop c = cfg_prop cfg)
      \<and> (region_ids ty (- 2) k \<noteq> [] \<longrightarrow> isextdet c = 1)"
proof (induction k)
  case 0
  show ?case by (simp add: region_ids_def)
next
  case (Suc k)
  then obtain c where c: "fold (srcdet_count ty) [0..<k] (0, 0, cfg)
        = (int (length (region_ids ty (- 1) k)), int (length (region_ids ty (- 2) k)), c)"
    "(nout c = nout cfg \<and> medianum c = medianum cfg \<and> cfg_prop c = cfg_prop cfg)" "region_ids ty (- 2) k \<noteq> [] \<longrightarrow> isextdet c = 1"
    by blast
  have step: "fold (srcdet_count ty) [0..<Suc k] (0, 0, cfg)
      = srcdet_count ty k (fold (srcdet_count ty) [0..<k] (0, 0, cfg))"
    by simp
  show ?case
    unfolding step c(1) using c(2,3) by (simp add: srcdet_count_def region_ids_Suc)
qed

lemma update_append_replicate:
  assumes "0 < n"
  shows "(xs @ replicate n (0::int))[length xs := v] = (xs @ [v]) @ replicate (n - 1) 0"
proof -
  obtain m where "n = Suc m" using assms by (cases n) auto
  thus ?thesis by simp
qed

lemma srcdet_record_fold:
  assumes "k \<le> n" "n \<le> length ty"
  shows "fold srcdet_record [0..<k]
           (0, 0, replicate (length (region_ids ty (- 1) n)) 0,
            replicate (length (region_ids ty (- 2) n)) 0, ty)
         = (length (region_ids ty (- 1) k), length (region_ids ty (- 2) k),
            region_ids ty (- 1) k
              @ replicate (length (region_ids ty (- 1) n) - length (region_ids ty (- 1) k)) 0,
            region_ids ty (- 2) k
              @ replicate (length (region_ids ty (- 2) n) - length (region_ids ty (- 2) k)) 0,
            map (\<lambda>i. if i < k \<and> ty ! i = - 1 then 0 else ty ! i) [0..<length ty])"
  using assms
proof (induction k)
  case 0
  show ?case by (simp add: region_ids_def map_nth)
next
  case (Suc k)
  have k: "k < length ty" using Suc.prems by simp
  have cur: "map (\<lambda>i. if i < k \<and> ty ! i = - 1 then 0 else ty ! i) [0..<length ty] ! k = ty ! k"
    using k by simp
  have upd: "ty ! k = - 1 \<Longrightarrow>
      (map (\<lambda>i. if i < k \<and> ty ! i = - 1 then 0 else ty ! i) [0..<length ty])[k := 0]
      = map (\<lambda>i. if i < Suc k \<and> ty ! i = - 1 then 0 else ty ! i) [0..<length ty]"
    using k by (intro nth_equalityI) (auto simp: nth_list_update less_Suc_eq)
  have same: "ty ! k \<noteq> - 1 \<Longrightarrow>
      map (\<lambda>i. if i < k \<and> ty ! i = - 1 then 0 else ty ! i) [0..<length ty]
      = map (\<lambda>i. if i < Suc k \<and> ty ! i = - 1 then 0 else ty ! i) [0..<length ty]"
    by (intro nth_equalityI) (auto simp: less_Suc_eq)
  have room: "length (region_ids ty v (Suc k)) \<le> length (region_ids ty v n)" for v
    using Suc.prems(1) by (rule region_ids_mono)
  have IH: "fold srcdet_record [0..<k]
           (0, 0, replicate (length (region_ids ty (- 1) n)) 0,
            replicate (length (region_ids ty (- 2) n)) 0, ty)
         = (length (region_ids ty (- 1) k), length (region_ids ty (- 2) k),
            region_ids ty (- 1) k
              @ replicate (length (region_ids ty (- 1) n) - length (region_ids ty (- 1) k)) 0,
            region_ids ty (- 2) k
              @ replicate (length (region_ids ty (- 2) n) - length (region_ids ty (- 2) k)) 0,
            map (\<lambda>i. if i < k \<and> ty ! i = - 1 then 0 else ty ! i) [0..<length ty])"
    using Suc by simp
  have step: "fold srcdet_record [0..<Suc k] s = srcdet_record k (fold srcdet_record [0..<k] s)" for s
    by simp
  consider (src) "ty ! k = - 1" | (det) "ty ! k = - 2" | (other) "ty ! k \<noteq> - 1" "ty ! k \<noteq> - 2"
    by blast
  thus ?case
  proof cases
    case src
    have pos: "0 < length (region_ids ty (- 1) n) - length (region_ids ty (- 1) k)"
      using room [of "- 1"] src by (simp add: region_ids_Suc)
    have ids: "region_ids ty (- 1) (Suc k) = region_ids ty (- 1) k @ [int k + 1]"
      "region_ids ty (- 2) (Suc k) = region_ids ty (- 2) k"
      using src by (simp_all add: region_ids_Suc)
    show ?thesis
      unfolding step IH ids
      using src by (simp add: srcdet_record_def cur upd update_append_replicate [OF pos]
                         del: upt_Suc map_append)
  next
    case det
    have pos: "0 < length (region_ids ty (- 2) n) - length (region_ids ty (- 2) k)"
      using room [of "- 2"] det by (simp add: region_ids_Suc)
    have ids: "region_ids ty (- 2) (Suc k) = region_ids ty (- 2) k @ [int k + 1]"
      "region_ids ty (- 1) (Suc k) = region_ids ty (- 1) k"
      using det by (simp_all add: region_ids_Suc)
    have same': "map (\<lambda>i. if i < k \<and> ty ! i = - 1 then 0 else ty ! i) [0..<length ty]
      = map (\<lambda>i. if i < Suc k \<and> ty ! i = - 1 then 0 else ty ! i) [0..<length ty]"
      using det by (intro same) simp
    show ?thesis
      unfolding step IH ids
      using det by (simp add: srcdet_record_def cur same' [symmetric] update_append_replicate [OF pos]
                         del: upt_Suc map_append)
  next
    case other
    have ids: "region_ids ty (- 2) (Suc k) = region_ids ty (- 2) k"
      "region_ids ty (- 1) (Suc k) = region_ids ty (- 1) k"
      using other by (simp_all add: region_ids_Suc)
    have same': "map (\<lambda>i. if i < k \<and> ty ! i = - 1 then 0 else ty ! i) [0..<length ty]
      = map (\<lambda>i. if i < Suc k \<and> ty ! i = - 1 then 0 else ty ! i) [0..<length ty]"
      using other by (intro same) simp
    show ?thesis
      unfolding step IH ids
      using other by (simp add: srcdet_record_def cur same' [symmetric] del: upt_Suc map_append)
  qed
qed

lemma remap_type_fold:
  assumes "k \<le> length ty"
  shows "fold (remap_type p) [0..<k] ty
         = map (\<lambda>i. if i < k \<and> ty ! i = - 2 then p + 1 else ty ! i) [0..<length ty]"
  using assms
proof (induction k)
  case 0
  show ?case by (simp add: map_nth)
next
  case (Suc k)
  have k: "k < length ty" using Suc.prems by simp
  have IH: "fold (remap_type p) [0..<k] ty
         = map (\<lambda>i. if i < k \<and> ty ! i = - 2 then p + 1 else ty ! i) [0..<length ty]"
    using Suc by simp
  define g where "g = map (\<lambda>i. if i < k \<and> ty ! i = - 2 then p + 1 else ty ! i) [0..<length ty]"
  have g: "length g = length ty" "g ! k = ty ! k"
    "\<And>i. i < length ty \<Longrightarrow> g ! i = (if i < k \<and> ty ! i = - 2 then p + 1 else ty ! i)"
    using k by (simp_all add: g_def)
  have "remap_type p k g
      = map (\<lambda>i. if i < Suc k \<and> ty ! i = - 2 then p + 1 else ty ! i) [0..<length ty]"
  proof (cases "ty ! k = - 2")
    case True
    hence "remap_type p k g = g[k := p + 1]" by (simp add: remap_type_def g(2))
    also have "\<dots> = map (\<lambda>i. if i < Suc k \<and> ty ! i = - 2 then p + 1 else ty ! i) [0..<length ty]"
      using True k by (intro nth_equalityI) (auto simp: g(1) g(3) nth_list_update less_Suc_eq)
    finally show ?thesis .
  next
    case False
    hence "remap_type p k g = g" by (simp add: remap_type_def g(2))
    also have "\<dots> = map (\<lambda>i. if i < Suc k \<and> ty ! i = - 2 then p + 1 else ty ! i) [0..<length ty]"
      using False by (intro nth_equalityI) (auto simp: g(1) g(3) less_Suc_eq)
    finally show ?thesis .
  qed
  moreover have "fold (remap_type p) [0..<Suc k] ty = remap_type p k (fold (remap_type p) [0..<k] ty)"
    by simp
  ultimately show ?case unfolding IH g_def by simp
qed

lemma fold_update_other:
  "j \<notin> set xs \<Longrightarrow> fold (\<lambda>i m. m[i := F i m]) xs m ! j = m ! j"
  by (induction xs arbitrary: m) auto

lemma fold_update_length:
  "length (fold (\<lambda>i m. m[i := F i m]) xs m) = length m"
  by (induction xs arbitrary: m) auto

text \<open>What \<^const>\<open>mesh_srcdetelem\<close> leaves in the mesh.\<close>

lemma mesh_srcdetelem_eval:
  assumes len: "nat (ne mesh) \<le> length (type mesh)"
  shows "\<exists>c. (nout c = nout cfg \<and> medianum c = medianum cfg \<and> cfg_prop c = cfg_prop cfg)
     \<and> (region_ids (type mesh) (- 2) (nat (ne mesh)) \<noteq> [] \<longrightarrow> isextdet c = 1)
     \<and> mesh_srcdetelem mesh cfg =
       (if region_ids (type mesh) (- 1) (nat (ne mesh)) \<noteq> []
           \<or> region_ids (type mesh) (- 2) (nat (ne mesh)) \<noteq> [] then
          Inr (mesh\<lparr>srcelemlen := int (length (region_ids (type mesh) (- 1) (nat (ne mesh)))),
                    detelemlen := int (length (region_ids (type mesh) (- 2) (nat (ne mesh)))),
                    srcelem := region_ids (type mesh) (- 1) (nat (ne mesh)),
                    detelem := region_ids (type mesh) (- 2) (nat (ne mesh)),
                    type := map (\<lambda>i. if i < nat (ne mesh) \<and> type mesh ! i = - 1 then 0 else type mesh ! i)
                              [0..<length (type mesh)]\<rparr>, c)
        else Inr (mesh\<lparr>srcelemlen := int (length (region_ids (type mesh) (- 1) (nat (ne mesh)))),
                       detelemlen := int (length (region_ids (type mesh) (- 2) (nat (ne mesh))))\<rparr>, c))"
proof -
  define n where "n = nat (ne mesh)"
  define S where "S = region_ids (type mesh) (- 1) n"
  define D where "D = region_ids (type mesh) (- 2) n"
  have len': "n \<le> length (type mesh)" using len by (simp add: n_def)
  obtain c where c: "fold (srcdet_count (type mesh)) [0..<n] (0, 0, cfg)
        = (int (length S), int (length D), c)"
    "(nout c = nout cfg \<and> medianum c = medianum cfg \<and> cfg_prop c = cfg_prop cfg)" "D \<noteq> [] \<longrightarrow> isextdet c = 1"
    unfolding S_def D_def using srcdet_count_fold [of "type mesh" n cfg] by blast
  have rec: "fold srcdet_record [0..<n] (0, 0, replicate (length S) 0, replicate (length D) 0, type mesh)
     = (length S, length D, S, D,
        map (\<lambda>i. if i < n \<and> type mesh ! i = - 1 then 0 else type mesh ! i) [0..<length (type mesh)])"
    unfolding S_def D_def using srcdet_record_fold [OF le_refl len'] by simp
  have "mesh_srcdetelem mesh cfg =
       (if S \<noteq> [] \<or> D \<noteq> [] then
          Inr (mesh\<lparr>srcelemlen := int (length S), detelemlen := int (length D),
                    srcelem := S, detelem := D,
                    type := map (\<lambda>i. if i < n \<and> type mesh ! i = - 1 then 0 else type mesh ! i)
                              [0..<length (type mesh)]\<rparr>, c)
        else Inr (mesh\<lparr>srcelemlen := int (length S), detelemlen := int (length D)\<rparr>, c))"
    using len' by (simp add: mesh_srcdetelem_def Let_def n_def [symmetric] c(1) rec)
  thus ?thesis using c(2,3) unfolding S_def D_def n_def by blast
qed

lemma mesh_srcdetelem_result:
  assumes sd: "mesh_srcdetelem mesh cfg = Inr (mesh1, cfg1)"
  shows "ne mesh1 = ne mesh" "nat (ne mesh) \<le> length (type mesh)"
    "length (type mesh1) = length (type mesh)"
    "nout cfg1 = nout cfg \<and> medianum cfg1 = medianum cfg \<and> cfg_prop cfg1 = cfg_prop cfg"
    "srcelemlen mesh1 = int (length (region_ids (type mesh) (- 1) (nat (ne mesh))))"
    "detelemlen mesh1 = int (length (region_ids (type mesh) (- 2) (nat (ne mesh))))"
    "region_ids (type mesh) (- 2) (nat (ne mesh)) \<noteq> [] \<longrightarrow> isextdet cfg1 = 1"
    "\<And>i. i < nat (ne mesh) \<Longrightarrow>
       type mesh1 ! i = (if type mesh ! i = - 1 then 0 else type mesh ! i)"
    "region_ids (type mesh) (- 1) (nat (ne mesh)) \<noteq> [] \<or> region_ids (type mesh) (- 2) (nat (ne mesh)) \<noteq> [] \<longrightarrow>
       srcelem mesh1 = region_ids (type mesh) (- 1) (nat (ne mesh))
       \<and> detelem mesh1 = region_ids (type mesh) (- 2) (nat (ne mesh))"
proof -
  show len: "nat (ne mesh) \<le> length (type mesh)"
    using sd by (auto simp: mesh_srcdetelem_def split: if_splits)
  obtain c where c: "(nout c = nout cfg \<and> medianum c = medianum cfg \<and> cfg_prop c = cfg_prop cfg)"
    "region_ids (type mesh) (- 2) (nat (ne mesh)) \<noteq> [] \<longrightarrow> isextdet c = 1"
    and ev: "mesh_srcdetelem mesh cfg =
       (if region_ids (type mesh) (- 1) (nat (ne mesh)) \<noteq> []
           \<or> region_ids (type mesh) (- 2) (nat (ne mesh)) \<noteq> [] then
          Inr (mesh\<lparr>srcelemlen := int (length (region_ids (type mesh) (- 1) (nat (ne mesh)))),
                    detelemlen := int (length (region_ids (type mesh) (- 2) (nat (ne mesh)))),
                    srcelem := region_ids (type mesh) (- 1) (nat (ne mesh)),
                    detelem := region_ids (type mesh) (- 2) (nat (ne mesh)),
                    type := map (\<lambda>i. if i < nat (ne mesh) \<and> type mesh ! i = - 1 then 0 else type mesh ! i)
                              [0..<length (type mesh)]\<rparr>, c)
        else Inr (mesh\<lparr>srcelemlen := int (length (region_ids (type mesh) (- 1) (nat (ne mesh)))),
                       detelemlen := int (length (region_ids (type mesh) (- 2) (nat (ne mesh))))\<rparr>, c))"
    using mesh_srcdetelem_eval [OF len, of cfg] by blast
  note res = sd [unfolded ev]
  show "ne mesh1 = ne mesh" "length (type mesh1) = length (type mesh)" "nout cfg1 = nout cfg \<and> medianum cfg1 = medianum cfg \<and> cfg_prop cfg1 = cfg_prop cfg"
    "srcelemlen mesh1 = int (length (region_ids (type mesh) (- 1) (nat (ne mesh))))"
    "detelemlen mesh1 = int (length (region_ids (type mesh) (- 2) (nat (ne mesh))))"
    "region_ids (type mesh) (- 2) (nat (ne mesh)) \<noteq> [] \<longrightarrow> isextdet cfg1 = 1"
    "region_ids (type mesh) (- 1) (nat (ne mesh)) \<noteq> [] \<or> region_ids (type mesh) (- 2) (nat (ne mesh)) \<noteq> [] \<longrightarrow>
       srcelem mesh1 = region_ids (type mesh) (- 1) (nat (ne mesh))
       \<and> detelem mesh1 = region_ids (type mesh) (- 2) (nat (ne mesh))"
    using res c by (auto split: if_splits)
  show "type mesh1 ! i = (if type mesh ! i = - 1 then 0 else type mesh ! i)"
    if "i < nat (ne mesh)" for i
  proof -
    have i: "i < length (type mesh)" using that len by simp
    show ?thesis
    proof (cases "region_ids (type mesh) (- 1) (nat (ne mesh)) = []
                  \<and> region_ids (type mesh) (- 2) (nat (ne mesh)) = []")
      case True
      hence "type mesh ! i \<noteq> - 1"
        using region_ids_empty [of "type mesh" "- 1" "nat (ne mesh)" i] that by simp
      moreover have "type mesh1 = type mesh"
        using res True by auto
      ultimately show ?thesis by simp
    next
      case False
      hence "type mesh1 = map (\<lambda>i. if i < nat (ne mesh) \<and> type mesh ! i = - 1 then 0 else type mesh ! i)
                              [0..<length (type mesh)]"
        using res by (auto split: if_splits)
      thus ?thesis using i that by simp
    qed
  qed
qed

text \<open>What \<^const>\<open>mesh_loadmedia\<close> leaves in the mesh.\<close>

lemma loadmedia_extdet_on:
  assumes ex: "loadmedia_extdet mesh cfg p = Inr (m, ty)" and on: "isextdet cfg \<noteq> 0"
  shows "0 \<le> p + 1" "nat (p + 1) < length m"
    "m ! nat (p + 1) = \<lparr>mua = 0, mus = 0, med_g = 1, med_n = nout cfg\<rparr>"
    "nat (ne mesh) \<le> length (type mesh)"
    "ty = map (\<lambda>i. if i < nat (ne mesh) \<and> type mesh ! i = - 2 then p + 1 else type mesh ! i)
            [0..<length (type mesh)]"
proof -
  define size where "size = p + 1 + isextdet cfg"
  define m0 where "m0 = (replicate (nat size) \<lparr>mua = 0, mus = 0, med_g = 0, med_n = 0\<rparr>)
                          [0 := \<lparr>mua = 0, mus = 0, med_g = 1, med_n = nout cfg\<rparr>]"
  have g: "1 \<le> size" "0 \<le> p + 1" "p + 1 < size" "nat (ne mesh) \<le> length (type mesh)"
    and m: "m = m0[nat (p + 1) := m0 ! 0]"
    and ty: "ty = fold (remap_type p) [0..<nat (ne mesh)] (type mesh)"
    using ex on unfolding loadmedia_extdet_def Let_def size_def [symmetric] m0_def [symmetric]
    by (auto split: if_splits)
  have len: "length m0 = nat size" by (simp add: m0_def)
  have zero: "m0 ! 0 = \<lparr>mua = 0, mus = 0, med_g = 1, med_n = nout cfg\<rparr>"
    using g(1) by (simp add: m0_def)
  show "0 \<le> p + 1" by (fact g(2))
  show "nat (ne mesh) \<le> length (type mesh)" by (fact g(4))
  show "nat (p + 1) < length m" using g by (simp add: m len)
  show "m ! nat (p + 1) = \<lparr>mua = 0, mus = 0, med_g = 1, med_n = nout cfg\<rparr>"
    using g by (simp add: m len zero)
  show "ty = map (\<lambda>i. if i < nat (ne mesh) \<and> type mesh ! i = - 2 then p + 1 else type mesh ! i)
            [0..<length (type mesh)]"
    unfolding ty by (rule remap_type_fold [OF g(4)])
qed

lemma loadmedia_extdet_off:
  assumes ex: "loadmedia_extdet mesh cfg p = Inr (m, ty)" and off: "isextdet cfg = 0"
  shows "0 \<le> p" "ty = type mesh"
  using ex off by (auto simp: loadmedia_extdet_def Let_def split: if_splits)

lemma loadmedia_fill_keeps:
  assumes fill: "loadmedia_fill pfile cfg p m = Inr m'"
    and cnt: "prop_count pfile cfg = Inr p"
    and j: "nat (p + 1) < length m" "0 \<le> p + 1"
  shows "length m' = length m \<and> m' ! nat (p + 1) = m ! nat (p + 1)"
proof (cases "medianum cfg = 0")
  case True
  then obtain hdr recs where pf: "pfile = PropFile hdr recs"
    using fill by (cases pfile) (auto simp: loadmedia_fill_def)
  have m': "m' = fold (\<lambda>i m. m[i := recs ! (i - 1)]) [1..<Suc (nat p)] m"
    using fill True by (auto simp: loadmedia_fill_def pf split: if_splits)
  have "nat (p + 1) \<notin> set [1..<Suc (nat p)]" using j(2) by auto
  thus ?thesis
    unfolding m' using fold_update_other [of "nat (p + 1)" "[1..<Suc (nat p)]" "\<lambda>i m. recs ! (i - 1)" m]
    by (simp add: fold_update_length)
next
  case False
  hence p: "p = medianum cfg - 1" using cnt by (simp add: prop_count_def)
  have g: "0 \<le> medianum cfg" "nat (medianum cfg) \<le> length (cfg_prop cfg)"
    and m': "m' = take (nat (medianum cfg)) (cfg_prop cfg) @ drop (nat (medianum cfg)) m"
    using fill False by (auto simp: loadmedia_fill_def split: if_splits)
  have idx: "nat (p + 1) = nat (medianum cfg)" by (simp add: p)
  have lt: "length (take (nat (medianum cfg)) (cfg_prop cfg)) = nat (medianum cfg)"
    using g(2) by simp
  have "m' ! nat (medianum cfg) = drop (nat (medianum cfg)) m ! 0"
    unfolding m' using lt by (simp add: nth_append)
  also have "\<dots> = m ! nat (medianum cfg)"
    using j(1) by (simp add: idx)
  finally have "m' ! nat (p + 1) = m ! nat (p + 1)" by (simp add: idx)
  moreover have "length m' = length m"
    using j(1) g(2) by (simp add: m' idx)
  ultimately show ?thesis by simp
qed

lemma loadmedia_unit_keeps:
  assumes "0 \<le> p + 1"
  shows "length (loadmedia_unit cfg p m) = length m
       \<and> loadmedia_unit cfg p m ! nat (p + 1) = m ! nat (p + 1)"
proof -
  have "nat (p + 1) \<notin> set [1..<Suc (nat p)]" using assms by auto
  thus ?thesis
    unfolding loadmedia_unit_def
    using fold_update_other [of "nat (p + 1)" "[1..<Suc (nat p)]"
        "\<lambda>i m. (m ! i)\<lparr>mus := mus (m ! i) * unitinmm cfg, mua := mua (m ! i) * unitinmm cfg\<rparr>" m]
    by (simp add: fold_update_length)
qed

lemma mesh_loadmedia_parts:
  assumes lm: "mesh_loadmedia pfile mesh cfg = Inr (mesh2, cfg2)"
  shows "\<exists>p m ty m'. prop_count pfile cfg = Inr p \<and> loadmedia_extdet mesh cfg p = Inr (m, ty)
     \<and> loadmedia_fill pfile cfg p m = Inr m'
     \<and> mesh_prop mesh2 = p \<and> type mesh2 = ty \<and> med mesh2 = loadmedia_unit cfg p m'
     \<and> srcelem mesh2 = srcelem mesh"
  using lm unfolding mesh_loadmedia_def
  by (auto split: sum.splits prod.splits)

lemma loadmedia_extdet_zero:
  assumes ex: "loadmedia_extdet mesh cfg p = Inr (m, ty)"
  shows "0 < length m" "m ! 0 = \<lparr>mua = 0, mus = 0, med_g = 1, med_n = nout cfg\<rparr>"
proof -
  define size where "size = p + 1 + isextdet cfg"
  define m0 where "m0 = (replicate (nat size) \<lparr>mua = 0, mus = 0, med_g = 0, med_n = 0\<rparr>)
                          [0 := \<lparr>mua = 0, mus = 0, med_g = 1, med_n = nout cfg\<rparr>]"
  have g: "1 \<le> size" and m: "m = m0 \<or> m = m0[nat (p + 1) := m0 ! 0]"
    using ex unfolding loadmedia_extdet_def Let_def size_def [symmetric] m0_def [symmetric]
    by (auto split: if_splits)
  have len: "length m0 = nat size" by (simp add: m0_def)
  have zero: "m0 ! 0 = \<lparr>mua = 0, mus = 0, med_g = 1, med_n = nout cfg\<rparr>"
    using g by (simp add: m0_def)
  have "length m = nat size" using m len by auto
  thus "0 < length m" using g by simp
  have "m0[nat (p + 1) := m0 ! 0] ! 0 = m0 ! 0"
    by (cases "nat (p + 1) = 0") (simp_all add: nth_list_update)
  thus "m ! 0 = \<lparr>mua = 0, mus = 0, med_g = 1, med_n = nout cfg\<rparr>"
    using m zero by auto
qed

lemma loadmedia_fill_zero:
  assumes fill: "loadmedia_fill pfile cfg p m = Inr m'" and len: "0 < length m"
  shows "medianum cfg = 0 \<longrightarrow> m' ! 0 = m ! 0"
    "medianum cfg \<noteq> 0 \<longrightarrow> m' ! 0 = cfg_prop cfg ! 0"
proof -
  show "medianum cfg = 0 \<longrightarrow> m' ! 0 = m ! 0"
  proof
    assume z: "medianum cfg = 0"
    then obtain hdr recs where pf: "pfile = PropFile hdr recs"
      using fill by (cases pfile) (auto simp: loadmedia_fill_def)
    have m': "m' = fold (\<lambda>i m. m[i := recs ! (i - 1)]) [1..<Suc (nat p)] m"
      using fill z by (auto simp: loadmedia_fill_def pf split: if_splits)
    have "0 \<notin> set [1..<Suc (nat p)]" by (simp del: upt_Suc)
    thus "m' ! 0 = m ! 0"
      unfolding m' by (rule fold_update_other)
  qed
  show "medianum cfg \<noteq> 0 \<longrightarrow> m' ! 0 = cfg_prop cfg ! 0"
  proof
    assume nz: "medianum cfg \<noteq> 0"
    have g: "0 \<le> medianum cfg" "nat (medianum cfg) \<le> length (cfg_prop cfg)"
      and m': "m' = take (nat (medianum cfg)) (cfg_prop cfg) @ drop (nat (medianum cfg)) m"
      using fill nz by (auto simp: loadmedia_fill_def split: if_splits)
    have "0 < nat (medianum cfg)" using g(1) nz by simp
    thus "m' ! 0 = cfg_prop cfg ! 0"
      unfolding m' using g(2) by (simp add: nth_append)
  qed
qed

lemma loadmedia_unit_zero: "loadmedia_unit cfg p m ! 0 = m ! 0"
proof -
  have "0 \<notin> set [1..<Suc (nat p)]" by (simp del: upt_Suc)
  thus ?thesis
    unfolding loadmedia_unit_def
    using fold_update_other [of 0 "[1..<Suc (nat p)]"
        "\<lambda>i m. (m ! i)\<lparr>mus := mus (m ! i) * unitinmm cfg, mua := mua (m ! i) * unitinmm cfg\<rparr>" m]
    by simp
qed

text \<open>
  Claim C7, as amended. Let \<^const>\<open>mesh_srcdetelem\<close> and then \<^const>\<open>mesh_loadmedia\<close> both
  return. No element \<open>i < ne\<close> is left with region \<open>-1\<close>. An element that had region \<open>-1\<close>
  has region 0, and \<open>srcelem\<close> holds the 1-based numbers of exactly these elements, in
  order, so \<open>i + 1\<close> is one of them. An element that had region \<open>-2\<close> has region
  \<open>prop + 1\<close>, which is inside the medium table, and that medium has \<open>mua = 0\<close>, \<open>mus = 0\<close>,
  \<open>g = 1\<close> and the refractive index \<open>cfg->nout\<close>, the values given to medium 0 at lines
  502--505. Every other region is unchanged. At the end medium 0 still has these values,
  and so equals the medium \<open>prop + 1\<close>, when the media are read from the property file
  (\<open>medianum = 0\<close>); when \<^verbatim>\<open>cfg->prop\<close> is given, line 528 has replaced medium 0 by
  \<^verbatim>\<open>cfg->prop[0]\<close>.
\<close>

theorem srcdet_regions_remapped:
  assumes sd: "mesh_srcdetelem mesh cfg = Inr (mesh1, cfg1)"
    and lm: "mesh_loadmedia pfile mesh1 cfg1 = Inr (mesh2, cfg2)"
    and i: "i < nat (ne mesh)"
  shows "type mesh2 ! i \<noteq> - 1
    \<and> (type mesh ! i = - 1 \<longrightarrow>
          type mesh2 ! i = 0
          \<and> srcelem mesh2 = region_ids (type mesh) (- 1) (nat (ne mesh))
          \<and> int i + 1 \<in> set (srcelem mesh2))
    \<and> (type mesh ! i = - 2 \<longrightarrow>
          type mesh2 ! i = mesh_prop mesh2 + 1
          \<and> nat (mesh_prop mesh2 + 1) < length (med mesh2)
          \<and> med mesh2 ! nat (mesh_prop mesh2 + 1)
              = \<lparr>mua = 0, mus = 0, med_g = 1, med_n = nout cfg\<rparr>
          \<and> (medianum cfg = 0 \<longrightarrow> med mesh2 ! nat (mesh_prop mesh2 + 1) = med mesh2 ! 0))
    \<and> (type mesh ! i \<noteq> - 1 \<and> type mesh ! i \<noteq> - 2 \<longrightarrow> type mesh2 ! i = type mesh ! i)
    \<and> (medianum cfg = 0 \<longrightarrow> med mesh2 ! 0 = \<lparr>mua = 0, mus = 0, med_g = 1, med_n = nout cfg\<rparr>)
    \<and> (medianum cfg \<noteq> 0 \<longrightarrow> med mesh2 ! 0 = cfg_prop cfg ! 0)"
proof -
  note r = mesh_srcdetelem_result [OF sd]
  have i1: "i < nat (ne mesh1)" "i < length (type mesh1)" "i < length (type mesh)"
    using i r(1,2,3) by simp_all
  have t1: "type mesh1 ! i = (if type mesh ! i = - 1 then 0 else type mesh ! i)"
    using r(8) [OF i] .
  obtain p m ty m' where
    cnt: "prop_count pfile cfg1 = Inr p" and
    ex: "loadmedia_extdet mesh1 cfg1 p = Inr (m, ty)" and
    fill: "loadmedia_fill pfile cfg1 p m = Inr m'" and
    p: "mesh_prop mesh2 = p" and ty: "type mesh2 = ty" and
    md: "med mesh2 = loadmedia_unit cfg1 p m'" and
    se: "srcelem mesh2 = srcelem mesh1"
    using mesh_loadmedia_parts [OF lm] by blast
  have p0: "0 \<le> p + 1"
    using loadmedia_extdet_on(1) [OF ex] loadmedia_extdet_off(1) [OF ex]
    by (cases "isextdet cfg1 = 0") simp_all
  have t2: "type mesh2 ! i = (if isextdet cfg1 \<noteq> 0 \<and> type mesh1 ! i = - 2 then p + 1 else type mesh1 ! i)"
  proof (cases "isextdet cfg1 = 0")
    case True
    thus ?thesis using loadmedia_extdet_off(2) [OF ex True] ty by simp
  next
    case False
    show ?thesis
      unfolding ty loadmedia_extdet_on(5) [OF ex False] using i1 False by simp
  qed
  note z = loadmedia_extdet_zero [OF ex]
  note fz = loadmedia_fill_zero [OF fill z(1)]
  have m0: "med mesh2 ! 0 = m' ! 0" unfolding md by (rule loadmedia_unit_zero)
  have zero_file: "med mesh2 ! 0 = \<lparr>mua = 0, mus = 0, med_g = 1, med_n = nout cfg\<rparr>"
    if "medianum cfg = 0"
    using that m0 fz(1) z(2) r(4) by simp
  have zero_cfg: "med mesh2 ! 0 = cfg_prop cfg ! 0" if "medianum cfg \<noteq> 0"
    using that m0 fz(2) r(4) by simp
  have not_src: "type mesh2 ! i \<noteq> - 1"
    unfolding t2 t1 using p0 by auto
  have src: "type mesh2 ! i = 0
          \<and> srcelem mesh2 = region_ids (type mesh) (- 1) (nat (ne mesh))
          \<and> int i + 1 \<in> set (srcelem mesh2)" if s: "type mesh ! i = - 1"
  proof -
    have mem: "int i + 1 \<in> set (region_ids (type mesh) (- 1) (nat (ne mesh)))"
      using i s by (rule region_ids_mem)
    hence "region_ids (type mesh) (- 1) (nat (ne mesh)) \<noteq> []" by auto
    hence "srcelem mesh1 = region_ids (type mesh) (- 1) (nat (ne mesh))"
      using r(9) by simp
    moreover have "type mesh2 ! i = 0" unfolding t2 t1 using s by simp
    ultimately show ?thesis using mem se by simp
  qed
  have det: "type mesh2 ! i = mesh_prop mesh2 + 1
          \<and> nat (mesh_prop mesh2 + 1) < length (med mesh2)
          \<and> med mesh2 ! nat (mesh_prop mesh2 + 1)
              = \<lparr>mua = 0, mus = 0, med_g = 1, med_n = nout cfg\<rparr>
          \<and> (medianum cfg = 0 \<longrightarrow> med mesh2 ! nat (mesh_prop mesh2 + 1) = med mesh2 ! 0)"
    if d: "type mesh ! i = - 2"
  proof -
    have "int i + 1 \<in> set (region_ids (type mesh) (- 2) (nat (ne mesh)))"
      using i d by (rule region_ids_mem)
    hence "region_ids (type mesh) (- 2) (nat (ne mesh)) \<noteq> []" by auto
    hence on: "isextdet cfg1 \<noteq> 0" using r(7) by simp
    note e = loadmedia_extdet_on [OF ex on]
    note f = loadmedia_fill_keeps [OF fill cnt e(2) e(1)]
    note u = loadmedia_unit_keeps [OF e(1), of cfg1 m']
    have "type mesh2 ! i = p + 1" unfolding t2 t1 using d on by simp
    moreover have "nat (p + 1) < length (med mesh2)"
      unfolding md using u f e(2) by simp
    moreover have "med mesh2 ! nat (p + 1) = \<lparr>mua = 0, mus = 0, med_g = 1, med_n = nout cfg\<rparr>"
      unfolding md using u f e(3) r(4) by simp
    ultimately show ?thesis using zero_file by (simp add: p)
  qed
  have other: "type mesh2 ! i = type mesh ! i" if "type mesh ! i \<noteq> - 1" "type mesh ! i \<noteq> - 2"
    unfolding t2 t1 using that by simp
  show ?thesis using not_src src det other zero_file zero_cfg by blast
qed

lemma upt_4_nat: "[0..<4] = [0, 1, 2, 3 :: nat]"
  by (simp add: upt_rec)

lemma med_table_3: "drop 3 ((replicate 4 z)[0 := a, 3 := a]) = [a]" for z a :: medium
  by (simp add: eval_nat_numeral)

lemma mesh_srcdetelem_w7:
  "mesh_srcdetelem mesh_w7 cfg_c7 = Inr (mesh_s7, cfg_s7)"
  by (simp add: mesh_srcdetelem_def srcdet_count_def srcdet_record_def mesh_w7_def cfg_w7_def
      cfg_c7_def cfg_w_def mesh_init_def mesh_s7_def cfg_s7_def upt_4_nat Let_def)

lemma mesh_loadmedia_s7:
  "mesh_loadmedia NoPropFile mesh_s7 cfg_s7 = Inr (mesh_l7, cfg_s7\<lparr>his_maxmedia := 2\<rparr>)"
  by (simp add: mesh_loadmedia_def prop_count_def loadmedia_extdet_def loadmedia_fill_def
      loadmedia_unit_def remap_type_def mesh_w7_def cfg_w7_def cfg_c7_def cfg_w_def mesh_init_def
      mesh_s7_def cfg_s7_def mesh_l7_def upt_4_nat Let_def med_table_3)

theorem srcdet_regions_remapped_witness:
  "\<exists>mesh1 cfg1 mesh2 cfg2.
     mesh_srcdetelem mesh_w7 cfg_f7 = Inr (mesh1, cfg1)
     \<and> mesh_loadmedia file_w7 mesh1 cfg1 = Inr (mesh2, cfg2)
     \<and> 2 < nat (ne mesh_w7)
     \<and> type mesh_w7 ! 1 = - 1 \<and> type mesh2 ! 1 = 0 \<and> srcelem mesh2 = [2]
     \<and> type mesh_w7 ! 2 = - 2 \<and> type mesh2 ! 2 = 3 \<and> mesh_prop mesh2 = 2
     \<and> medianum cfg_f7 = 0
     \<and> med mesh2 ! 3 = \<lparr>mua = 0, mus = 0, med_g = 1, med_n = nout cfg_f7\<rparr>
     \<and> med mesh2 ! 3 = med mesh2 ! 0"
proof -
  define cfg1 where "cfg1 = cfg_f7\<lparr>e0 := 2, isextdet := 1, detnum := 0\<rparr>"
  define mesh2 where "mesh2 = mesh_s7\<lparr>mesh_prop := 2,
     med := [\<lparr>mua = 0, mus = 0, med_g = 1, med_n = 137 / 100\<rparr>,
             \<lparr>mua = 1 / 100, mus = 1, med_g = 9 / 10, med_n = 137 / 100\<rparr>,
             \<lparr>mua = 1 / 50, mus = 2, med_g = 9 / 10, med_n = 137 / 100\<rparr>,
             \<lparr>mua = 0, mus = 0, med_g = 1, med_n = 137 / 100\<rparr>],
     type := [1, 0, 3, 2]\<rparr>"
  define cfg2 where "cfg2 = cfg1\<lparr>his_maxmedia := 2\<rparr>"
  have e1: "mesh_srcdetelem mesh_w7 cfg_f7 = Inr (mesh_s7, cfg1)"
    by (simp add: mesh_srcdetelem_def srcdet_count_def srcdet_record_def mesh_w7_def cfg_f7_def
        cfg_w_def mesh_init_def mesh_s7_def cfg1_def upt_4_nat Let_def)
  have tbl: "(replicate 4 z)[0 := a, 3 := a, Suc 0 := b, 2 := c] = [a, b, c, a]" for z a b c :: medium
    by (simp add: eval_nat_numeral)
  have u3: "[Suc 0..<3] = [Suc 0, 2]" by (simp add: upt_rec)
  have e2: "mesh_loadmedia file_w7 mesh_s7 cfg1 = Inr (mesh2, cfg2)"
    by (simp add: mesh_loadmedia_def prop_count_def loadmedia_extdet_def loadmedia_fill_def
        loadmedia_unit_def remap_type_def mesh_w7_def cfg_f7_def cfg_w_def mesh_init_def
        mesh_s7_def cfg1_def mesh2_def cfg2_def file_w7_def upt_4_nat u3 Let_def tbl)
  have n: "1 < nat (ne mesh_w7)" "2 < nat (ne mesh_w7)" by (simp_all add: mesh_w7_def)
  have t: "type mesh_w7 ! 1 = - 1" "type mesh_w7 ! 2 = - 2" by (simp_all add: mesh_w7_def)
  have ids: "region_ids (type mesh_w7) (- 1) (nat (ne mesh_w7)) = [2]"
    by (simp add: region_ids_def mesh_w7_def upt_4_nat)
  have mn: "medianum cfg_f7 = 0" by (simp add: cfg_f7_def cfg_w_def)
  have a: "type mesh2 ! 1 = 0" "srcelem mesh2 = [2]"
    using srcdet_regions_remapped [OF e1 e2 n(1)] t(1) ids by simp_all
  have b: "type mesh2 ! 2 = mesh_prop mesh2 + 1"
    "med mesh2 ! nat (mesh_prop mesh2 + 1) = \<lparr>mua = 0, mus = 0, med_g = 1, med_n = nout cfg_f7\<rparr>"
    "med mesh2 ! nat (mesh_prop mesh2 + 1) = med mesh2 ! 0"
    using srcdet_regions_remapped [OF e1 e2 n(2)] t(2) mn by simp_all
  have p: "mesh_prop mesh2 = 2" by (simp add: mesh2_def)
  have b': "type mesh2 ! 2 = 3" "med mesh2 ! 3 = \<lparr>mua = 0, mus = 0, med_g = 1, med_n = nout cfg_f7\<rparr>"
    "med mesh2 ! 3 = med mesh2 ! 0"
    using b by (simp_all add: p)
  show ?thesis
    by (intro exI [of _ mesh_s7] exI [of _ cfg1] exI [of _ mesh2] exI [of _ cfg2] conjI)
       (fact e1 e2 n(2) t a b' p mn)+
qed

text \<open>
  Claim C7 as stated fails when the media are given in \<^verbatim>\<open>cfg->prop\<close>: the medium of the
  synthetic region 3 keeps the ambient index \<open>1.37\<close> written at line 504 and copied at line
  509, while line 528 replaces medium 0 by \<^verbatim>\<open>cfg->prop[0]\<close>, of index 1. The synthetic
  medium is not medium 0.
\<close>

theorem srcdet_medium_counterexample:
  "mesh_srcdetelem mesh_w7 cfg_c7 = Inr (mesh_s7, cfg_s7)
   \<and> mesh_loadmedia NoPropFile mesh_s7 cfg_s7 = Inr (mesh_l7, cfg_s7\<lparr>his_maxmedia := 2\<rparr>)
   \<and> type mesh_w7 ! 2 = - 2 \<and> type mesh_l7 ! 2 = mesh_prop mesh_l7 + 1
   \<and> med mesh_l7 ! nat (mesh_prop mesh_l7 + 1) = \<lparr>mua = 0, mus = 0, med_g = 1, med_n = 137 / 100\<rparr>
   \<and> med mesh_l7 ! 0 = \<lparr>mua = 0, mus = 0, med_g = 1, med_n = 1\<rparr>
   \<and> med mesh_l7 ! nat (mesh_prop mesh_l7 + 1) \<noteq> med mesh_l7 ! 0"
proof -
  have v: "type mesh_w7 ! 2 = - 2" "type mesh_l7 ! 2 = mesh_prop mesh_l7 + 1"
    "med mesh_l7 ! nat (mesh_prop mesh_l7 + 1) = \<lparr>mua = 0, mus = 0, med_g = 1, med_n = 137 / 100\<rparr>"
    "med mesh_l7 ! 0 = \<lparr>mua = 0, mus = 0, med_g = 1, med_n = 1\<rparr>"
    by (simp_all add: mesh_w7_def mesh_l7_def mesh_s7_def cfg_w7_def cfg_w_def eval_nat_numeral)
  have ne: "med mesh_l7 ! nat (mesh_prop mesh_l7 + 1) \<noteq> med mesh_l7 ! 0"
    unfolding v by simp
  show ?thesis using mesh_srcdetelem_w7 mesh_loadmedia_s7 v ne by simp
qed

subsection \<open>Boundary node volumes\<close>

lemma mark_step:
  fixes nvA nv :: "real list"
  assumes P: "marked nvA el c rng H nv"
    and c: "rng \<longrightarrow> 0 < c"
    and u: "u < length nv"
    and nv': "nv' = (if 0 < nv ! u \<and> el then nv[u := nv ! u * - c] else nv)"
    and r: "0 < nv ! u \<and> el \<longrightarrow> rng"
  shows "marked nvA el c rng (insert u H) nv'"
proof -
  have len: "length nv = length nvA"
    and val: "\<And>v. v < length nvA \<Longrightarrow>
        nv ! v = (if 0 < nvA ! v \<and> el \<and> v \<in> H then nvA ! v * - c else nvA ! v)"
    and rg: "el \<Longrightarrow> v \<in> H \<Longrightarrow> v < length nvA \<Longrightarrow> 0 < nvA ! v \<Longrightarrow> rng" for v
    using P unfolding marked_def by auto
  have uA: "u < length nvA" using u len by simp
  have neg: "nv ! u \<le> 0" if "0 < nvA ! u" "el" "u \<in> H"
  proof -
    have "0 < c" using rg [OF that(2,3) uA that(1)] c by simp
    hence "nvA ! u * - c < 0" using that(1) by (simp add: mult_pos_neg)
    thus ?thesis using val [OF uA] that by simp
  qed
  have l': "length nv' = length nvA" using len by (simp add: nv')
  have v': "nv' ! v = (if 0 < nvA ! v \<and> el \<and> v \<in> insert u H then nvA ! v * - c else nvA ! v)"
    if v: "v < length nvA" for v
  proof (cases "v = u")
    case False
    hence "nv' ! v = nv ! v" by (simp add: nv')
    thus ?thesis using val [OF v] False by simp
  next
    case True
    show ?thesis
    proof (cases "0 < nv ! u \<and> el")
      case yes: True
      have ncond: "\<not> (0 < nvA ! u \<and> el \<and> u \<in> H)"
      proof
        assume "0 < nvA ! u \<and> el \<and> u \<in> H"
        hence "nv ! u \<le> 0" using neg by blast
        thus False using yes by simp
      qed
      have same: "nv ! u = nvA ! u"
        using val [OF uA] ncond by (simp only: if_False)
      have "nv' ! u = nv ! u * - c" using yes u by (simp add: nv')
      thus ?thesis using True same yes by simp
    next
      case no: False
      have eq: "nv' ! u = nv ! u" unfolding nv' using no by (simp only: if_False)
      show ?thesis
      proof (cases "0 < nvA ! u \<and> el")
        case True
        have "u \<in> H"
        proof (rule ccontr)
          assume "u \<notin> H"
          hence "nv ! u = nvA ! u" using val [OF uA] by simp
          thus False using no True by simp
        qed
        hence "nv ! u = nvA ! u * - c" using val [OF uA] True by simp
        thus ?thesis using eq True \<open>v = u\<close> \<open>u \<in> H\<close> by simp
      next
        case False
        hence nc: "\<not> (0 < nvA ! u \<and> el \<and> u \<in> H)"
          "\<not> (0 < nvA ! u \<and> el \<and> u \<in> insert u H)" by blast+
        have "nv ! u = nvA ! u" using val [OF uA] nc(1) by (simp only: if_False)
        moreover have "(if 0 < nvA ! u \<and> el \<and> u \<in> insert u H then nvA ! u * - c else nvA ! u) = nvA ! u"
          using nc(2) by (simp only: if_False)
        ultimately show ?thesis using eq False unfolding \<open>v = u\<close> by auto
      qed
    qed
  qed
  have r': "rng" if "el" "v \<in> insert u H" "v < length nvA" "0 < nvA ! v" for v
  proof (cases "v \<in> H")
    case True
    show ?thesis using rg [OF that(1) True that(3,4)] .
  next
    case False
    hence vu: "v = u" using that(2) by simp
    hence "nv ! u = nvA ! u" using val [OF uA] False by simp
    hence "0 < nv ! u \<and> el" using that(1,4) vu by simp
    thus ?thesis using r by simp
  qed
  show ?thesis
    unfolding marked_def
  proof (intro conjI allI impI)
    show "length nv' = length nvA" by (fact l')
  next
    fix v assume "v < length nvA"
    thus "nv' ! v = (if 0 < nvA ! v \<and> el \<and> v \<in> insert u H then nvA ! v * - c else nvA ! v)"
      by (rule v')
  next
    assume "el \<and> (\<exists>v\<in>insert u H. v < length nvA \<and> 0 < nvA ! v)"
    then obtain v where "el" "v \<in> insert u H" "v < length nvA" "0 < nvA ! v" by blast
    thus rng by (rule r')
  qed
qed

lemma nvol_scale_Inl [simp]: "nvol_scale mesh R i j k (Inl err) = Inl err"
  by (simp add: nvol_scale_def)

lemma nvol_face_Inl [simp]: "nvol_face mesh R i j (Inl err) = Inl err"
  by (simp add: nvol_face_def)

lemma fold_nvol_face_Inl [simp]: "fold (nvol_face mesh R i) js (Inl err) = Inl err"
  by (induction js) simp_all

lemma nvol_elem_Inl [simp]: "nvol_elem mesh R i (Inl err) = Inl err"
  by (simp add: nvol_elem_def)

lemma fold_nvol_elem_Inl [simp]: "fold (nvol_elem mesh R) js (Inl err) = Inl err"
  by (induction js) simp_all

lemma nvol_scale_Inr:
  assumes "nvol_scale mesh R i j k (Inr nv) = Inr nv'"
  shows "\<exists>u. face_node mesh i j k = int u \<and> u < length nv
       \<and> nv' = (if 0 < nv ! u \<and> 0 \<le> type mesh ! i
                then nv[u := nv ! u * - (2 / (1 + R ! nat (type mesh ! i)))] else nv)
       \<and> (0 < nv ! u \<and> 0 \<le> type mesh ! i \<longrightarrow> nat (type mesh ! i) < length R)"
proof -
  define nid where "nid = face_node mesh i j k"
  define u where "u = nat nid"
  define c where "c = 2 / (1 + R ! nat (type mesh ! i))"
  have run: "(if 4 \<le> j \<or> length (elem mesh) \<le> i * nat (elemlen mesh) + out ! (ifaceorder ! j) ! k
          then Inl Undefined
          else if nid < 0 \<or> int (length nv) \<le> nid then Inl Undefined
                else if nv ! nat nid > 0 then
                  (if length (type mesh) \<le> i then Inl Undefined
                   else if type mesh ! i \<ge> 0 then
                     (if length R \<le> nat (type mesh ! i) then Inl Undefined
                      else Inr (nv[nat nid := nv ! nat nid * - c]))
                   else Inr nv)
                else Inr nv) = Inr nv'"
    using assms unfolding nvol_scale_def Let_def nid_def c_def by simp
  have g: "0 \<le> nid" "nid < int (length nv)"
    using run by (simp_all split: if_splits)
  have u: "nid = int u" "u < length nv" using g by (simp_all add: u_def)
  have run': "(if nv ! u > 0 then
                  (if length (type mesh) \<le> i then Inl Undefined
                   else if type mesh ! i \<ge> 0 then
                     (if length R \<le> nat (type mesh ! i) then Inl Undefined
                      else Inr (nv[u := nv ! u * - c]))
                   else Inr nv)
                else Inr nv) = Inr nv'"
    using run g unfolding u_def [symmetric] by (simp split: if_splits)
  have "nv' = (if 0 < nv ! u \<and> 0 \<le> type mesh ! i then nv[u := nv ! u * - c] else nv)"
    using run' by (simp split: if_splits)
  moreover have "0 < nv ! u \<and> 0 \<le> type mesh ! i \<longrightarrow> nat (type mesh ! i) < length R"
    using run' by (simp split: if_splits)
  ultimately show ?thesis using u unfolding nid_def c_def by blast
qed

lemma nvol_scale_marked:
  assumes run: "nvol_scale mesh R i j k s = Inr nv'"
    and s: "s = Inr nv"
    and P: "marked nvA (0 \<le> type mesh ! i) (2 / (1 + R ! nat (type mesh ! i)))
              (nat (type mesh ! i) < length R) H nv"
    and c: "nat (type mesh ! i) < length R \<longrightarrow> 0 < 2 / (1 + R ! nat (type mesh ! i))"
  shows "\<exists>u. face_node mesh i j k = int u
     \<and> marked nvA (0 \<le> type mesh ! i) (2 / (1 + R ! nat (type mesh ! i)))
              (nat (type mesh ! i) < length R) (insert u H) nv'"
proof -
  obtain u where u: "face_node mesh i j k = int u" "u < length nv"
    "nv' = (if 0 < nv ! u \<and> 0 \<le> type mesh ! i
                then nv[u := nv ! u * - (2 / (1 + R ! nat (type mesh ! i)))] else nv)"
    "0 < nv ! u \<and> 0 \<le> type mesh ! i \<longrightarrow> nat (type mesh ! i) < length R"
    using nvol_scale_Inr [OF run [unfolded s]] by blast
  show ?thesis
    using mark_step [OF P c u(2,3,4)] u(1) by blast
qed

lemma Inr_source:
  assumes "f s = Inr y" and "\<And>e. f (Inl e) = Inl e"
  shows "\<exists>x. s = Inr x"
  using assms by (cases s) auto

lemma less_3_cases: "k < (3 :: nat) \<longleftrightarrow> k = 0 \<or> k = 1 \<or> k = 2"
  by auto

lemma nvol_face_marked:
  assumes run: "nvol_face mesh R i j (Inr nv) = Inr nv'"
    and P: "marked nvA (0 \<le> type mesh ! i) (2 / (1 + R ! nat (type mesh ! i)))
              (nat (type mesh ! i) < length R) H nv"
    and c: "nat (type mesh ! i) < length R \<longrightarrow> 0 < 2 / (1 + R ! nat (type mesh ! i))"
  shows "marked nvA (0 \<le> type mesh ! i) (2 / (1 + R ! nat (type mesh ! i)))
              (nat (type mesh ! i) < length R) (H \<union> face_hits mesh i j) nv'"
proof (cases "facenb mesh ! (i * nat (elemlen mesh) + j) = 0")
  case False
  hence "face_hits mesh i j = {}" by (simp add: face_hits_def)
  moreover have "nv' = nv"
    using run False by (simp add: nvol_face_def split: if_splits)
  ultimately show ?thesis using P by simp
next
  case True
  define s1 where "s1 = nvol_scale mesh R i j 0 (Inr nv)"
  define s2 where "s2 = nvol_scale mesh R i j 1 s1"
  have u3: "[0..<3] = [0, 1, 2]" by (simp add: upt_rec)
  have r3: "nvol_scale mesh R i j 2 s2 = Inr nv'"
    using run True unfolding nvol_face_def s2_def s1_def u3
    by (simp split: if_splits)
  obtain n2 where n2: "s2 = Inr n2"
    using Inr_source [of "nvol_scale mesh R i j 2" s2 nv'] r3 by auto
  have r2: "nvol_scale mesh R i j 1 s1 = Inr n2" using n2 by (simp add: s2_def)
  obtain n1 where n1: "s1 = Inr n1"
    using Inr_source [of "nvol_scale mesh R i j 1" s1 n2] r2 by auto
  have r1: "nvol_scale mesh R i j 0 (Inr nv) = Inr n1" using n1 by (simp add: s1_def)
  obtain u0 where u0: "face_node mesh i j 0 = int u0"
    "marked nvA (0 \<le> type mesh ! i) (2 / (1 + R ! nat (type mesh ! i)))
              (nat (type mesh ! i) < length R) (insert u0 H) n1"
    using nvol_scale_marked [OF r1 refl P c] by blast
  obtain u1 where u1: "face_node mesh i j 1 = int u1"
    "marked nvA (0 \<le> type mesh ! i) (2 / (1 + R ! nat (type mesh ! i)))
              (nat (type mesh ! i) < length R) (insert u1 (insert u0 H)) n2"
    using nvol_scale_marked [OF r2 n1 u0(2) c] by blast
  obtain u2 where u2: "face_node mesh i j 2 = int u2"
    "marked nvA (0 \<le> type mesh ! i) (2 / (1 + R ! nat (type mesh ! i)))
              (nat (type mesh ! i) < length R) (insert u2 (insert u1 (insert u0 H))) nv'"
    using nvol_scale_marked [OF r3 n2 u1(2) c] by blast
  have "face_hits mesh i j = {u0, u1, u2}"
    unfolding face_hits_def less_3_cases using True u0(1) u1(1) u2(1) by auto
  hence "H \<union> face_hits mesh i j = insert u2 (insert u1 (insert u0 H))" by auto
  thus ?thesis using u2(2) by simp
qed

lemma nvol_faces_marked:
  assumes run: "fold (nvol_face mesh R i) [0..<m] (Inr nvA) = Inr nv'"
    and c: "nat (type mesh ! i) < length R \<longrightarrow> 0 < 2 / (1 + R ! nat (type mesh ! i))"
  shows "marked nvA (0 \<le> type mesh ! i) (2 / (1 + R ! nat (type mesh ! i)))
              (nat (type mesh ! i) < length R) (\<Union>j \<in> {..<m}. face_hits mesh i j) nv'"
  using run
proof (induction m arbitrary: nv')
  case 0
  thus ?case by (simp add: marked_def)
next
  case (Suc m)
  define s where "s = fold (nvol_face mesh R i) [0..<m] (Inr nvA)"
  have r: "nvol_face mesh R i m s = Inr nv'" using Suc.prems by (simp add: s_def)
  obtain nv where nv: "s = Inr nv"
    using Inr_source [of "nvol_face mesh R i m" s nv'] r by auto
  have P: "marked nvA (0 \<le> type mesh ! i) (2 / (1 + R ! nat (type mesh ! i)))
              (nat (type mesh ! i) < length R) (\<Union>j \<in> {..<m}. face_hits mesh i j) nv"
    using Suc.IH nv by (simp add: s_def)
  have "(\<Union>j \<in> {..<Suc m}. face_hits mesh i j)
      = (\<Union>j \<in> {..<m}. face_hits mesh i j) \<union> face_hits mesh i m"
    by (auto simp: less_Suc_eq)
  thus ?case using nvol_face_marked [OF r [unfolded nv] P c] by simp
qed

lemma exposed_node_hits:
  "exposed_node mesh v i \<longleftrightarrow>
     0 \<le> type mesh ! i \<and> v \<in> (\<Union>j \<in> {..<nat (elemlen mesh)}. face_hits mesh i j)"
proof -
  have "list_ex (\<lambda>j. facenb mesh ! (i * nat (elemlen mesh) + j) = 0
                    \<and> list_ex (\<lambda>k. face_node mesh i j k = int v) [0..<3])
          [0..<nat (elemlen mesh)]
      \<longleftrightarrow> (\<exists>j < nat (elemlen mesh). facenb mesh ! (i * nat (elemlen mesh) + j) = 0
                    \<and> (\<exists>k < 3. face_node mesh i j k = int v))"
    unfolding list_ex_iff by (simp add: Bex_def)
  moreover have "v \<in> (\<Union>j \<in> {..<nat (elemlen mesh)}. face_hits mesh i j)
      \<longleftrightarrow> (\<exists>j < nat (elemlen mesh). facenb mesh ! (i * nat (elemlen mesh) + j) = 0
                    \<and> (\<exists>k < 3. face_node mesh i j k = int v))"
    by (simp add: face_hits_def Bex_def)
  ultimately show ?thesis unfolding exposed_node_def by simp
qed

lemma nvol_elem_result:
  assumes run: "nvol_elem mesh R i (Inr nvA) = Inr nvB"
    and c: "nat (type mesh ! i) < length R \<longrightarrow> 0 < 2 / (1 + R ! nat (type mesh ! i))"
  shows "length nvB = length nvA"
    "\<And>v. v < length nvA \<Longrightarrow>
       nvB ! v = (if 0 < nvA ! v \<and> exposed_node mesh v i
                  then nvA ! v * - (2 / (1 + R ! nat (type mesh ! i))) else nvA ! v)"
    "\<And>v. v < length nvA \<Longrightarrow> 0 < nvA ! v \<Longrightarrow> exposed_node mesh v i
       \<Longrightarrow> nat (type mesh ! i) < length R"
proof -
  note m = nvol_faces_marked [OF run [unfolded nvol_elem_def] c, unfolded marked_def]
  show "length nvB = length nvA" using m by simp
  show "nvB ! v = (if 0 < nvA ! v \<and> exposed_node mesh v i
                  then nvA ! v * - (2 / (1 + R ! nat (type mesh ! i))) else nvA ! v)"
    if "v < length nvA" for v
    using m that unfolding exposed_node_hits by simp
  show "nat (type mesh ! i) < length R"
    if "v < length nvA" "0 < nvA ! v" "exposed_node mesh v i" for v
    using m that unfolding exposed_node_hits by blast
qed

lemma find_upt_Suc:
  "find P [0..<Suc n] = (case find P [0..<n] of Some i \<Rightarrow> Some i | None \<Rightarrow> if P n then Some n else None)"
proof -
  have "find P (xs @ [x]) = (case find P xs of Some i \<Rightarrow> Some i | None \<Rightarrow> if P x then Some x else None)"
    for xs :: "nat list" and x
    by (induction xs) simp_all
  thus ?thesis by simp
qed

lemma nvol_elems_result:
  assumes run: "fold (nvol_elem mesh R) [0..<n] (Inr nv0) = Inr nv"
    and pos: "\<And>v. v < length nv0 \<Longrightarrow> 0 \<le> nv0 ! v"
    and R: "\<And>t. t < length R \<Longrightarrow> 0 \<le> R ! t"
  shows "length nv = length nv0
     \<and> (\<forall>v < length nv0.
           case find (exposed_node mesh v) [0..<n] of
             None \<Rightarrow> nv ! v = nv0 ! v
           | Some i \<Rightarrow> nv ! v = - (nv0 ! v * (2 / (1 + R ! nat (type mesh ! i))))
                        \<and> (0 < nv0 ! v \<longrightarrow> nat (type mesh ! i) < length R))"
  using run
proof (induction n arbitrary: nv)
  case 0
  thus ?case by simp
next
  case (Suc n)
  define s where "s = fold (nvol_elem mesh R) [0..<n] (Inr nv0)"
  have r: "nvol_elem mesh R n s = Inr nv" using Suc.prems by (simp add: s_def)
  obtain nvA where nvA: "s = Inr nvA"
    using Inr_source [of "nvol_elem mesh R n" s nv] r by auto
  have IH: "length nvA = length nv0"
    "\<And>v. v < length nv0 \<Longrightarrow>
           (case find (exposed_node mesh v) [0..<n] of
             None \<Rightarrow> nvA ! v = nv0 ! v
           | Some i \<Rightarrow> nvA ! v = - (nv0 ! v * (2 / (1 + R ! nat (type mesh ! i))))
                        \<and> (0 < nv0 ! v \<longrightarrow> nat (type mesh ! i) < length R))"
    using Suc.IH [of nvA] nvA by (simp_all add: s_def)
  have cpos: "0 < 2 / (1 + R ! t)" if "t < length R" for t
    using R [OF that] by simp
  have c: "nat (type mesh ! n) < length R \<longrightarrow> 0 < 2 / (1 + R ! nat (type mesh ! n))"
    using cpos by simp
  note e = nvol_elem_result [OF r [unfolded nvA] c]
  have "case find (exposed_node mesh v) [0..<Suc n] of
             None \<Rightarrow> nv ! v = nv0 ! v
           | Some i \<Rightarrow> nv ! v = - (nv0 ! v * (2 / (1 + R ! nat (type mesh ! i))))
                        \<and> (0 < nv0 ! v \<longrightarrow> nat (type mesh ! i) < length R)"
    if v: "v < length nv0" for v
  proof (cases "find (exposed_node mesh v) [0..<n]")
    case (Some i)
    have a: "nvA ! v = - (nv0 ! v * (2 / (1 + R ! nat (type mesh ! i))))"
      "0 < nv0 ! v \<longrightarrow> nat (type mesh ! i) < length R"
      using IH(2) [OF v] Some by simp_all
    have "nvA ! v \<le> 0"
    proof (cases "0 < nv0 ! v")
      case True
      moreover have "0 < 2 / (1 + R ! nat (type mesh ! i))"
        using a(2) True cpos by blast
      ultimately have "0 < nv0 ! v * (2 / (1 + R ! nat (type mesh ! i)))"
        by (rule mult_pos_pos)
      thus ?thesis unfolding a(1) by simp
    next
      case False
      hence "nv0 ! v = 0" using pos [OF v] by simp
      thus ?thesis using a(1) by simp
    qed
    hence "nv ! v = nvA ! v" using e(2) [of v] v IH(1) by simp
    thus ?thesis using a Some by (simp add: find_upt_Suc del: upt_Suc)
  next
    case None
    have a: "nvA ! v = nv0 ! v" using IH(2) [OF v] None by simp
    show ?thesis
    proof (cases "exposed_node mesh v n")
      case False
      hence "nv ! v = nvA ! v" using e(2) [of v] v IH(1) by simp
      thus ?thesis using a None False by (simp add: find_upt_Suc del: upt_Suc)
    next
      case True
      have f: "find (exposed_node mesh v) [0..<Suc n] = Some n"
        using None True by (simp add: find_upt_Suc del: upt_Suc)
      show ?thesis
      proof (cases "0 < nv0 ! v")
        case pos0: True
        have "nv ! v = nvA ! v * - (2 / (1 + R ! nat (type mesh ! n)))"
          using e(2) [of v] v IH(1) True pos0 a by simp
        moreover have "nat (type mesh ! n) < length R"
          using e(3) [of v] v IH(1) True pos0 a by simp
        ultimately show ?thesis unfolding f using a by simp
      next
        case False
        hence z: "nv0 ! v = 0" using pos [OF v] by simp
        have "nv ! v = nvA ! v" using e(2) [of v] v IH(1) a z by simp
        thus ?thesis unfolding f using a z by simp
      qed
    qed
  qed
  thus ?case using e(1) IH(1) by simp
qed

lemma nvol_abs_fold:
  assumes "n \<le> length nv"
  shows "length (fold nvol_abs [0..<n] nv) = length nv
     \<and> (\<forall>v < length nv. fold nvol_abs [0..<n] nv ! v = (if v < n then \<bar>nv ! v\<bar> else nv ! v))"
  using assms
proof (induction n)
  case 0
  show ?case by simp
next
  case (Suc n)
  define w where "w = fold nvol_abs [0..<n] nv"
  have w: "length w = length nv"
    "\<And>v. v < length nv \<Longrightarrow> w ! v = (if v < n then \<bar>nv ! v\<bar> else nv ! v)"
    using Suc by (simp_all add: w_def)
  have n: "n < length nv" using Suc.prems by simp
  have step: "fold nvol_abs [0..<Suc n] nv = nvol_abs n w" by (simp add: w_def)
  have wn: "w ! n = nv ! n" using w(2) [OF n] by simp
  have "nvol_abs n w ! v = (if v < Suc n then \<bar>nv ! v\<bar> else nv ! v)" if v: "v < length nv" for v
  proof (cases "v = n")
    case True
    thus ?thesis using n w(1) wn by (simp add: nvol_abs_def)
  next
    case False
    hence "nvol_abs n w ! v = w ! v" by (simp add: nvol_abs_def)
    thus ?thesis using w(2) [OF v] False by (simp add: less_Suc_eq)
  qed
  moreover have "length (nvol_abs n w) = length nv" using w(1) by (simp add: nvol_abs_def)
  ultimately show ?case unfolding step by simp
qed

lemma reff_step_result:
  assumes len: "m < length R" and m: "1 \<le> m"
    and vals: "\<And>t. t < length R \<Longrightarrow>
        R ! t = (if 1 \<le> t \<and> t < m then mesh_getreff (med_n (md ! t)) (med_n (md ! 0)) else 0)"
  shows "reff_step md m R = R[m := mesh_getreff (med_n (md ! m)) (med_n (md ! 0))]"
proof (cases "find (\<lambda>j. med_n (md ! j) = med_n (md ! m)) [1..<m]")
  case None
  hence "reff_copy md m R = R" by (simp add: reff_copy_def)
  moreover have "R ! m = 0" using vals [OF len] by simp
  ultimately show ?thesis by (simp add: reff_step_def)
next
  case (Some j)
  hence j: "1 \<le> j" "j < m" "med_n (md ! j) = med_n (md ! m)"
    by (auto simp: find_Some_iff)
  have "R ! j = mesh_getreff (med_n (md ! m)) (med_n (md ! 0))"
    using vals [of j] j len by simp
  hence cp: "reff_copy md m R = R[m := mesh_getreff (med_n (md ! m)) (med_n (md ! 0))]"
    using Some by (simp add: reff_copy_def)
  show ?thesis unfolding reff_step_def cp Let_def using len by simp
qed

lemma reff_fold_result:
  assumes "k < L"
  shows "length (fold (reff_step md) [1..<Suc k] (replicate L 0)) = L
     \<and> (\<forall>t < L. fold (reff_step md) [1..<Suc k] (replicate L 0) ! t
           = (if 1 \<le> t \<and> t < Suc k then mesh_getreff (med_n (md ! t)) (med_n (md ! 0)) else 0))"
  using assms
proof (induction k)
  case 0
  show ?case by simp
next
  case (Suc k)
  define R where "R = fold (reff_step md) [1..<Suc k] (replicate L 0)"
  have R: "length R = L"
    "\<And>t. t < length R \<Longrightarrow>
        R ! t = (if 1 \<le> t \<and> t < Suc k then mesh_getreff (med_n (md ! t)) (med_n (md ! 0)) else 0)"
    using Suc by (simp_all add: R_def)
  have m: "Suc k < length R" "1 \<le> Suc k" using Suc.prems R(1) by simp_all
  have step: "fold (reff_step md) [1..<Suc (Suc k)] (replicate L 0) = reff_step md (Suc k) R"
    by (simp add: R_def)
  have eq: "reff_step md (Suc k) R = R[Suc k := mesh_getreff (med_n (md ! Suc k)) (med_n (md ! 0))]"
    using m R(2) by (rule reff_step_result)
  have "R[Suc k := mesh_getreff (med_n (md ! Suc k)) (med_n (md ! 0))] ! t
         = (if 1 \<le> t \<and> t < Suc (Suc k) then mesh_getreff (med_n (md ! t)) (med_n (md ! 0)) else 0)"
    if t: "t < L" for t
  proof (cases "t = Suc k")
    case True
    thus ?thesis using m(1) by simp
  next
    case False
    hence "R[Suc k := mesh_getreff (med_n (md ! Suc k)) (med_n (md ! 0))] ! t = R ! t" by simp
    also have "\<dots> = (if 1 \<le> t \<and> t < Suc k then mesh_getreff (med_n (md ! t)) (med_n (md ! 0)) else 0)"
      using R(2) [of t] t R(1) by simp
    also have "\<dots> = (if 1 \<le> t \<and> t < Suc (Suc k) then mesh_getreff (med_n (md ! t)) (med_n (md ! 0)) else 0)"
      using False by (simp add: less_Suc_eq)
    finally show ?thesis .
  qed
  thus ?case unfolding step eq using R(1) by simp
qed

lemma reff_table_result:
  assumes tab: "reff_table mesh cfg = Inr R" and t: "t < length R"
  shows "R ! t = region_reff mesh cfg (int t)"
proof (cases "isreflect cfg \<noteq> 0")
  case False
  hence "R = replicate (nat (mesh_prop mesh + 1)) 0"
    using tab by (simp add: reff_table_def split: if_splits)
  thus ?thesis using t False by (simp add: region_reff_def)
next
  case True
  define p where "p = nat (mesh_prop mesh)"
  have g: "0 \<le> mesh_prop mesh + 1"
    and R: "R = fold (reff_step (med mesh)) [1..<Suc p] (replicate (nat (mesh_prop mesh + 1)) 0)"
    using tab True by (simp_all add: reff_table_def p_def split: if_splits)
  show ?thesis
  proof (cases "0 \<le> mesh_prop mesh")
    case False
    hence "p = 0" by (simp add: p_def)
    hence "R = replicate (nat (mesh_prop mesh + 1)) 0" using R by simp
    moreover have "nat (mesh_prop mesh + 1) = 0" using False by simp
    ultimately show ?thesis using t by simp
  next
    case nonneg: True
    hence L: "nat (mesh_prop mesh + 1) = Suc p" by (simp add: p_def)
    note f = reff_fold_result [of p "Suc p" "med mesh", folded R [unfolded L]]
    have "t < Suc p" using t f by simp
    thus ?thesis using f True by (simp add: region_reff_def)
  qed
qed

text \<open>
  Let the block run (\<open>isnormalized = 1\<close>, a ray tracer other than the grid one, nodal
  basis) and return, on node volumes that are not negative and an outer refractive index
  \<open>med[0].n\<close> that is not negative. Then the volume of a node \<open>v\<close> that belongs to a face
  without neighbour of an element of region \<open>\<ge> 0\<close> is its old volume times
  \<open>2 / (1 + Reff[type[i]])\<close>, once, for the first such element \<open>i\<close> of the loop, where
  \<open>Reff\<close> is \<^const>\<open>mesh_getreff\<close> of the region against medium 0 (0 for region 0 and
  without reflection); the volume of any other node is unchanged; and no volume is
  negative at the end.
\<close>

lemma nvol_scaled_once:
  assumes run: "tracer_prep_nvol mesh cfg = Inr mesh'"
    and on: "isnormalized cfg = 1" "cfg_method cfg \<noteq> rtBLBadouelGrid" "basisorder cfg \<noteq> 0"
    and pos: "\<forall>u < length (nvol mesh). 0 \<le> nvol mesh ! u"
    and nout: "0 \<le> med_n (med mesh ! 0)"
    and v: "v < nat (nn mesh)"
  shows "length (nvol mesh') = length (nvol mesh)
    \<and> nvol mesh' ! v =
        (case first_exposed mesh v of
           None \<Rightarrow> nvol mesh ! v
         | Some i \<Rightarrow> nvol mesh ! v * (2 / (1 + region_reff mesh cfg (type mesh ! i))))
    \<and> 0 \<le> nvol mesh' ! v"
proof -
  obtain R nv where tab: "reff_table mesh cfg = Inr R"
    and len: "nat (nn mesh) \<le> length (nvol mesh)"
    and loop: "fold (nvol_elem mesh R) [0..<nat (ne mesh)] (Inr (nvol mesh)) = Inr nv"
    and res: "nvol mesh' = fold nvol_abs [0..<nat (nn mesh)] nv"
    using run on unfolding tracer_prep_nvol_def
    by (auto split: sum.splits if_splits)
  have reff: "0 \<le> region_reff mesh cfg r" for r
    using mesh_getreff_bounds [OF nout] by (simp add: region_reff_def)
  have Rpos: "0 \<le> R ! t" if "t < length R" for t
    using reff_table_result [OF tab that] reff by simp
  have pos': "0 \<le> nvol mesh ! u" if "u < length (nvol mesh)" for u
    using pos that by simp
  note l = nvol_elems_result [OF loop pos' Rpos]
  have lnv: "length nv = length (nvol mesh)" using l by simp
  have vl: "v < length (nvol mesh)" "v < length nv" using v len lnv by simp_all
  have ab: "length (nvol mesh') = length nv" "nvol mesh' ! v = \<bar>nv ! v\<bar>"
    using nvol_abs_fold [of "nat (nn mesh)" nv] len lnv v vl unfolding res by simp_all
  have val: "nvol mesh' ! v =
        (case first_exposed mesh v of
           None \<Rightarrow> nvol mesh ! v
         | Some i \<Rightarrow> nvol mesh ! v * (2 / (1 + region_reff mesh cfg (type mesh ! i))))"
  proof (cases "first_exposed mesh v")
    case None
    hence "nv ! v = nvol mesh ! v"
      using l vl(1) by (auto simp: first_exposed_def)
    thus ?thesis using None ab(2) pos' [OF vl(1)] by simp
  next
    case (Some i)
    hence f: "find (exposed_node mesh v) [0..<nat (ne mesh)] = Some i"
      by (simp add: first_exposed_def)
    hence ty: "0 \<le> type mesh ! i"
      by (auto simp: find_Some_iff exposed_node_def)
    have a: "nv ! v = - (nvol mesh ! v * (2 / (1 + R ! nat (type mesh ! i))))"
      "0 < nvol mesh ! v \<longrightarrow> nat (type mesh ! i) < length R"
      using l vl(1) f by auto
    show ?thesis
    proof (cases "0 < nvol mesh ! v")
      case True
      hence rng: "nat (type mesh ! i) < length R" using a(2) by simp
      have Re: "R ! nat (type mesh ! i) = region_reff mesh cfg (type mesh ! i)"
        using reff_table_result [OF tab rng] ty by simp
      define c where "c = 2 / (1 + R ! nat (type mesh ! i))"
      have "0 < c" using Rpos [OF rng] by (simp add: c_def)
      hence "0 \<le> nvol mesh ! v * c"
        using True by (intro mult_nonneg_nonneg) simp_all
      hence "\<bar>- (nvol mesh ! v * c)\<bar> = nvol mesh ! v * c"
        by (simp only: abs_minus_cancel abs_of_nonneg)
      hence "\<bar>nv ! v\<bar> = nvol mesh ! v * (2 / (1 + R ! nat (type mesh ! i)))"
        unfolding a(1) c_def .
      thus ?thesis using Some ab(2) Re by simp
    next
      case False
      hence "nvol mesh ! v = 0" using pos' [OF vl(1)] by simp
      thus ?thesis using Some ab(2) a(1) by simp
    qed
  qed
  show ?thesis using val ab lnv by simp
qed

lemma nvol_scaled_once_w8:
  "\<exists>mesh'. tracer_prep_nvol mesh_w8 cfg_w8 = Inr mesh'
     \<and> isnormalized cfg_w8 = 1 \<and> cfg_method cfg_w8 \<noteq> rtBLBadouelGrid \<and> basisorder cfg_w8 \<noteq> 0
     \<and> list_all (\<lambda>x. 0 \<le> x) (nvol mesh_w8) \<and> 0 \<le> med_n (med mesh_w8 ! 0)
     \<and> first_exposed mesh_w8 2 = Some 0 \<and> first_exposed mesh_w8 4 = Some 1
     \<and> nvol mesh' ! 2 = 4 \<and> nvol mesh' ! 4 = 2"
proof -
  define mesh' where "mesh' = mesh_w8\<lparr>nvol := [2, 4, 4, 4, 2]\<rparr>"
  have u: "[0..<2] = [0, 1]" "[0..<3] = [0, 1, 2]" "[0..<4] = [0, 1, 2, 3]" "[0..<5] = [0, 1, 2, 3, 4]"
    by (simp_all add: upt_rec)
  have tab: "reff_table mesh_w8 cfg_w8 = Inr [0, 0]"
    by (simp add: reff_table_def mesh_w8_def cfg_w8_def cfg_w_def mesh_init_def eval_nat_numeral)
  have e0: "nvol_elem mesh_w8 [0, 0] 0 (Inr [1, 2, 2, 2, 1]) = Inr [- 2, - 4, - 4, - 4, 1]"
    by (simp add: nvol_elem_def nvol_face_def nvol_scale_def face_node_def out_def ifaceorder_def
        mesh_w8_def mesh_init_def u Let_def)
  have e1: "nvol_elem mesh_w8 [0, 0] 1 (Inr [- 2, - 4, - 4, - 4, 1]) = Inr [- 2, - 4, - 4, - 4, - 2]"
    by (simp add: nvol_elem_def nvol_face_def nvol_scale_def face_node_def out_def ifaceorder_def
        mesh_w8_def mesh_init_def u Let_def)
  have nn: "nat (nn mesh_w8) = 5" "nat (ne mesh_w8) = 2" "nvol mesh_w8 = [1, 2, 2, 2, 1]"
    by (simp_all add: mesh_w8_def)
  have run: "tracer_prep_nvol mesh_w8 cfg_w8 = Inr mesh'"
    unfolding tracer_prep_nvol_def tab nn u
    by (simp add: e0 e1 [unfolded One_nat_def] nvol_abs_def mesh'_def cfg_w8_def cfg_w_def)
  have h: "isnormalized cfg_w8 = 1" "cfg_method cfg_w8 \<noteq> rtBLBadouelGrid" "basisorder cfg_w8 \<noteq> 0"
    by (simp_all add: cfg_w8_def cfg_w_def)
  have p: "list_all (\<lambda>x. 0 \<le> x) (nvol mesh_w8)" by (simp add: nn)
  hence p': "\<forall>u < length (nvol mesh_w8). 0 \<le> nvol mesh_w8 ! u"
    by (simp add: list_all_length)
  have n0: "0 \<le> med_n (med mesh_w8 ! 0)" by (simp add: mesh_w8_def)
  have f: "first_exposed mesh_w8 2 = Some 0" "first_exposed mesh_w8 4 = Some 1"
    by (simp_all add: first_exposed_def exposed_node_def face_node_def out_def ifaceorder_def
        mesh_w8_def mesh_init_def u)
  have r: "region_reff mesh_w8 cfg_w8 r = 0" for r
    by (simp add: region_reff_def cfg_w8_def)
  have v: "2 < nat (nn mesh_w8)" "4 < nat (nn mesh_w8)" by (simp_all add: nn)
  have a: "nvol mesh' ! 2 = 4"
    using nvol_scaled_once [OF run h p' n0 v(1), unfolded f r] by (simp add: nn)
  have b: "nvol mesh' ! 4 = 2"
    using nvol_scaled_once [OF run h p' n0 v(2), unfolded f r] by (simp add: nn)
  show ?thesis
    by (intro exI [of _ mesh'] conjI) (fact run h p n0 f a b)+
qed

text \<open>On a mesh that satisfies \<^const>\<open>nvol_wf\<close> the block returns.\<close>

lemma reff_table_length:
  assumes "reff_table mesh cfg = Inr R"
  shows "length R = nat (mesh_prop mesh + 1)"
proof (cases "isreflect cfg \<noteq> 0")
  case False
  thus ?thesis using assms by (auto simp: reff_table_def split: if_splits)
next
  case True
  define p where "p = nat (mesh_prop mesh)"
  have g: "0 \<le> mesh_prop mesh + 1"
    and R: "R = fold (reff_step (med mesh)) [1..<Suc p] (replicate (nat (mesh_prop mesh + 1)) 0)"
    using assms True by (simp_all add: reff_table_def p_def split: if_splits)
  show ?thesis
  proof (cases "0 \<le> mesh_prop mesh")
    case False
    hence "p = 0" by (simp add: p_def)
    thus ?thesis using R by simp
  next
    case True
    hence L: "nat (mesh_prop mesh + 1) = Suc p" by (simp add: p_def)
    show ?thesis
      using reff_fold_result [of p "Suc p" "med mesh"] unfolding R L by simp
  qed
qed

lemma nvol_scale_returns:
  assumes ok: "nvol_visit_ok mesh i j k" and len: "length nv = length (nvol mesh)"
    and ty: "i < length (type mesh)" "0 \<le> type mesh ! i \<longrightarrow> nat (type mesh ! i) < length R"
  shows "\<exists>nv'. nvol_scale mesh R i j k (Inr nv) = Inr nv' \<and> length nv' = length (nvol mesh)"
proof -
  define nid where "nid = face_node mesh i j k"
  have g: "\<not> (4 \<le> j \<or> length (elem mesh) \<le> i * nat (elemlen mesh) + out ! (ifaceorder ! j) ! k)"
    "\<not> (nid < 0 \<or> int (length nv) \<le> nid)"
    using ok len by (auto simp: nvol_visit_ok_def nid_def)
  have t: "\<not> length (type mesh) \<le> i" using ty(1) by simp
  show ?thesis
  proof (cases "0 < nv ! nat nid \<and> 0 \<le> type mesh ! i")
    case True
    hence r: "\<not> length R \<le> nat (type mesh ! i)" using ty(2) by simp
    have "nvol_scale mesh R i j k (Inr nv)
        = Inr (nv[nat nid := nv ! nat nid * - (2 / (1 + R ! nat (type mesh ! i)))])"
      unfolding nvol_scale_def Let_def nid_def [symmetric] using g t r True by simp
    thus ?thesis using len by simp
  next
    case False
    have "nvol_scale mesh R i j k (Inr nv) = Inr nv"
      unfolding nvol_scale_def Let_def nid_def [symmetric] using g t False by auto
    thus ?thesis using len by simp
  qed
qed

lemma nvol_face_returns:
  assumes ok: "nvol_face_ok mesh i j" and len: "length nv = length (nvol mesh)"
    and R: "length R = nat (mesh_prop mesh + 1)"
  shows "\<exists>nv'. nvol_face mesh R i j (Inr nv) = Inr nv' \<and> length nv' = length (nvol mesh)"
proof (cases "facenb mesh ! (i * nat (elemlen mesh) + j) = 0")
  case False
  thus ?thesis using ok len by (simp add: nvol_face_def nvol_face_ok_def)
next
  case True
  have b: "\<not> length (facenb mesh) \<le> i * nat (elemlen mesh) + j"
    and ty: "i < length (type mesh)" "type mesh ! i \<le> mesh_prop mesh"
    and v: "nvol_visit_ok mesh i j 0" "nvol_visit_ok mesh i j 1" "nvol_visit_ok mesh i j 2"
    using ok True by (simp_all add: nvol_face_ok_def upt_conv_Cons numeral_2_eq_2)
  have rng: "0 \<le> type mesh ! i \<longrightarrow> nat (type mesh ! i) < length R"
    using ty(2) R by auto
  obtain n1 where n1: "nvol_scale mesh R i j 0 (Inr nv) = Inr n1" "length n1 = length (nvol mesh)"
    using nvol_scale_returns [OF v(1) len ty(1) rng] by blast
  obtain n2 where n2: "nvol_scale mesh R i j 1 (Inr n1) = Inr n2" "length n2 = length (nvol mesh)"
    using nvol_scale_returns [OF v(2) n1(2) ty(1) rng] by blast
  obtain n3 where n3: "nvol_scale mesh R i j 2 (Inr n2) = Inr n3" "length n3 = length (nvol mesh)"
    using nvol_scale_returns [OF v(3) n2(2) ty(1) rng] by blast
  have u3: "[0..<3] = [0, 1, 2]" by (simp add: upt_rec)
  have "nvol_face mesh R i j (Inr nv) = Inr n3"
    unfolding nvol_face_def u3 using b True n1(1) n2(1) n3(1) by simp
  thus ?thesis using n3(2) by simp
qed

lemma nvol_elem_returns:
  assumes ok: "list_all (nvol_face_ok mesh i) [0..<m]" and len: "length nv = length (nvol mesh)"
    and R: "length R = nat (mesh_prop mesh + 1)"
  shows "\<exists>nv'. fold (nvol_face mesh R i) [0..<m] (Inr nv) = Inr nv' \<and> length nv' = length (nvol mesh)"
  using ok
proof (induction m)
  case 0
  show ?case using len by simp
next
  case (Suc m)
  then obtain n1 where n1: "fold (nvol_face mesh R i) [0..<m] (Inr nv) = Inr n1"
    "length n1 = length (nvol mesh)" by auto
  have "nvol_face_ok mesh i m" using Suc.prems by simp
  from nvol_face_returns [OF this n1(2) R] show ?case by (simp add: n1(1))
qed

lemma nvol_elems_return:
  assumes ok: "list_all (\<lambda>i. list_all (nvol_face_ok mesh i) [0..<nat (elemlen mesh)]) [0..<n]"
    and R: "length R = nat (mesh_prop mesh + 1)"
  shows "\<exists>nv'. fold (nvol_elem mesh R) [0..<n] (Inr (nvol mesh)) = Inr nv'
           \<and> length nv' = length (nvol mesh)"
  using ok
proof (induction n)
  case 0
  show ?case by simp
next
  case (Suc n)
  then obtain n1 where n1: "fold (nvol_elem mesh R) [0..<n] (Inr (nvol mesh)) = Inr n1"
    "length n1 = length (nvol mesh)" by auto
  have "list_all (nvol_face_ok mesh n) [0..<nat (elemlen mesh)]" using Suc.prems by simp
  note e = nvol_elem_returns [OF this n1(2) R]
  have step: "fold (nvol_elem mesh R) [0..<Suc n] (Inr (nvol mesh))
      = nvol_elem mesh R n (fold (nvol_elem mesh R) [0..<n] (Inr (nvol mesh)))"
    by simp
  show ?case unfolding step n1(1) unfolding nvol_elem_def by (rule e)
qed

lemma tracer_prep_nvol_returns:
  assumes wf: "nvol_wf mesh cfg"
  shows "\<exists>mesh'. tracer_prep_nvol mesh cfg = Inr mesh'"
proof (cases "isnormalized cfg = 1 \<and> cfg_method cfg \<noteq> rtBLBadouelGrid \<and> basisorder cfg \<noteq> 0")
  case False
  thus ?thesis by (auto simp: tracer_prep_nvol_def)
next
  case True
  have g: "0 \<le> mesh_prop mesh + 1"
    "isreflect cfg \<noteq> 0 \<and> 1 \<le> mesh_prop mesh \<longrightarrow> nat (mesh_prop mesh + 1) \<le> length (med mesh)"
    "nat (nn mesh) \<le> length (nvol mesh)"
    "list_all (\<lambda>i. list_all (nvol_face_ok mesh i) [0..<nat (elemlen mesh)]) [0..<nat (ne mesh)]"
    using wf by (simp_all add: nvol_wf_def split: if_splits)
  have "\<exists>R. reff_table mesh cfg = Inr R"
  proof (cases "isreflect cfg \<noteq> 0 \<and> 1 \<le> mesh_prop mesh")
    case True
    hence "\<not> length (med mesh) < nat (mesh_prop mesh + 1)" using g(2) by simp
    thus ?thesis using True g(1) by (simp add: reff_table_def)
  next
    case False
    thus ?thesis using g(1) by (auto simp: reff_table_def)
  qed
  then obtain R where R: "reff_table mesh cfg = Inr R" by blast
  obtain nv where nv: "fold (nvol_elem mesh R) [0..<nat (ne mesh)] (Inr (nvol mesh)) = Inr nv"
    using nvol_elems_return [OF g(4) reff_table_length [OF R]] by blast
  show ?thesis
    unfolding tracer_prep_nvol_def using True g(3) by (simp add: R nv)
qed

lemma nvol_wf_w8: "nvol_wf mesh_w8 cfg_w8"
  by (simp add: nvol_wf_def nvol_face_ok_def nvol_visit_ok_def face_node_def out_def
      ifaceorder_def mesh_w8_def mesh_init_def cfg_w8_def cfg_w_def upt_conv_Cons)

text \<open>
  The mesh \<^const>\<open>mesh_c8\<close> is what \<^verbatim>\<open>mesh_srcdetelem\<close> and \<^verbatim>\<open>mesh_loadmedia\<close> make of a
  mesh with a wide-field detector element.
\<close>

lemma mesh_c8_loaded:
  "mesh_srcdetelem mesh_r8 cfg_r8 = Inr (mesh_d8, cfg_d8)
   \<and> mesh_loadmedia NoPropFile mesh_d8 cfg_d8 = Inr (mesh_c8, cfg_c8)"
proof -
  have u: "[0..<2] = [0, 1]" by (simp add: upt_rec)
  have tbl: "drop 2 ((replicate 3 z)[0 := a, 2 := a]) = [a]" for z a :: medium
    by (simp add: eval_nat_numeral)
  have a: "mesh_srcdetelem mesh_r8 cfg_r8 = Inr (mesh_d8, cfg_d8)"
    by (simp add: mesh_srcdetelem_def srcdet_count_def srcdet_record_def mesh_r8_def cfg_r8_def
        mesh_d8_def cfg_d8_def mesh_w8_def cfg_w8_def cfg_w_def mesh_init_def u Let_def)
  have b: "mesh_loadmedia NoPropFile mesh_d8 cfg_d8 = Inr (mesh_c8, cfg_c8)"
    by (simp add: mesh_loadmedia_def prop_count_def loadmedia_extdet_def loadmedia_fill_def
        loadmedia_unit_def remap_type_def mesh_r8_def cfg_r8_def mesh_d8_def cfg_d8_def
        mesh_c8_def cfg_c8_def mesh_w8_def cfg_w8_def cfg_w_def mesh_init_def u Let_def tbl)
  show ?thesis using a b by simp
qed

text \<open>
  Claim C8, on a mesh with a wide-field detector. The block is entered, the table \<^verbatim>\<open>Reff\<close>
  has the \<open>prop + 1 = 2\<close> entries of line 1094, element 0 belongs to the region
  \<open>prop + 1 = 2\<close> of the detector, its face 0 has no neighbour and its node 0 has a
  positive volume: line 1121 reads \<^verbatim>\<open>Reff[2]\<close>, one entry past the end of the table. No
  factor \<open>2 / (1 + Reff)\<close> of the region is defined for this node.
\<close>

theorem nvol_detector_region_reff:
  "isnormalized cfg_c8 = 1 \<and> cfg_method cfg_c8 \<noteq> rtBLBadouelGrid \<and> basisorder cfg_c8 \<noteq> 0
   \<and> reff_table mesh_c8 cfg_c8 = Inr [0, 0]
   \<and> type mesh_c8 ! 0 = mesh_prop mesh_c8 + 1
   \<and> facenb mesh_c8 ! 0 = 0 \<and> face_node mesh_c8 0 0 0 = 0 \<and> 0 < nvol mesh_c8 ! 0
   \<and> nvol_scale mesh_c8 [0, 0] 0 0 0 (Inr (nvol mesh_c8)) = Inl Undefined
   \<and> tracer_prep_nvol mesh_c8 cfg_c8 = Inl Undefined"
proof -
  have c: "isnormalized cfg_c8 = 1" "cfg_method cfg_c8 \<noteq> rtBLBadouelGrid" "basisorder cfg_c8 \<noteq> 0"
    by (simp_all add: cfg_c8_def cfg_d8_def cfg_r8_def cfg_w8_def cfg_w_def)
  have tab: "reff_table mesh_c8 cfg_c8 = Inr [0, 0]"
    by (simp add: reff_table_def mesh_c8_def cfg_c8_def cfg_d8_def cfg_r8_def cfg_w8_def cfg_w_def
        eval_nat_numeral)
  have m: "type mesh_c8 ! 0 = mesh_prop mesh_c8 + 1" "facenb mesh_c8 ! 0 = 0"
    "face_node mesh_c8 0 0 0 = 0" "0 < nvol mesh_c8 ! 0"
    by (simp_all add: mesh_c8_def mesh_d8_def mesh_r8_def mesh_w8_def mesh_init_def face_node_def
        out_def ifaceorder_def)
  have s: "nvol_scale mesh_c8 [0, 0] 0 0 0 (Inr (nvol mesh_c8)) = Inl Undefined"
    by (simp add: nvol_scale_def face_node_def out_def ifaceorder_def mesh_c8_def mesh_d8_def
        mesh_r8_def mesh_w8_def mesh_init_def Let_def)
  have u: "[0..<2] = [0, 1]" "[0..<3] = [0, 1, 2]" "[0..<4] = [0, 1, 2, 3]"
    by (simp_all add: upt_rec)
  have f: "nvol_face mesh_c8 [0, 0] 0 0 (Inr (nvol mesh_c8)) = Inl Undefined"
    unfolding nvol_face_def u using s m(2)
    by (simp add: mesh_c8_def mesh_d8_def mesh_r8_def mesh_w8_def mesh_init_def)
  have e: "nvol_elem mesh_c8 [0, 0] 0 (Inr (nvol mesh_c8)) = Inl Undefined"
    unfolding nvol_elem_def
    by (simp add: u f mesh_c8_def [THEN arg_cong, of elemlen] mesh_d8_def mesh_r8_def mesh_w8_def
        mesh_init_def)
  have n: "nat (ne mesh_c8) = 2" "\<not> length (nvol mesh_c8) < nat (nn mesh_c8)"
    by (simp_all add: mesh_c8_def mesh_d8_def mesh_r8_def mesh_w8_def mesh_init_def)
  have r: "tracer_prep_nvol mesh_c8 cfg_c8 = Inl Undefined"
    unfolding tracer_prep_nvol_def tab n(1) u using c n(2) by (simp add: e)
  show ?thesis using c tab m s r by simp
qed

subsection \<open>The source test of \<^verbatim>\<open>tracer_prep\<close>\<close>

text \<open>
  \<^verbatim>\<open>tracer_init\<close> with one of the five methods leaves a ray tracer with its mesh and at
  least one of its arrays.
\<close>

lemma tracer_init_built:
  assumes init: "tracer_init (Some mesh) meth = Inr tracer" and meth: "meth \<noteq> rtOtherMethod"
  shows "tr_mesh tracer = Some mesh"
    "\<not> (tr_n tracer = None \<and> tr_m tracer = None \<and> tr_d tracer = None)"
proof -
  have m: "meth = rtPlucker \<or> meth = rtHavel \<or> meth = rtBadouel \<or> meth = rtBLBadouel
           \<or> meth = rtBLBadouelGrid"
    using meth by (cases meth) simp_all
  show "tr_mesh tracer = Some mesh"
    using init m unfolding tracer_init_def tracer_build_def
    by (auto split: if_splits)
  show "\<not> (tr_n tracer = None \<and> tr_m tracer = None \<and> tr_d tracer = None)"
    using init m unfolding tracer_init_def tracer_build_def
    by (auto split: if_splits)
qed

text \<open>
  On a ray tracer that is built, a source of one of the four types that the initial
  element does not enclose and that the scan does not find is the error of line 1076.
\<close>

lemma tracer_prep_source_built:
  assumes built: "\<not> (tr_n tracer = None \<and> tr_m tracer = None \<and> tr_d tracer = None)"
    and mesh: "tr_mesh tracer = Some mesh"
    and src: "srctype cfg = stPencil \<or> srctype cfg = stIsotropic
              \<or> srctype cfg = stCone \<or> srctype cfg = stArcSin"
    and e0: "e0 cfg \<le> 0 \<and> c = cfg
             \<or> 0 < e0 cfg \<and> mesh_barycentric (e0 cfg) (srcpos cfg) mesh = Inr (r, b) \<and> r \<noteq> 0
                \<and> c = cfg\<lparr>bary0 := b\<rparr>"
    and scan: "mesh_initelem K mesh c = Inr (r', c')" "r' \<noteq> 0"
  shows "tracer_prep_source K tracer cfg
         = Inl (MESH_ERROR ''initial element does not enclose the source!'')"
proof -
  have s: "source_scan K tracer mesh c
         = Inl (MESH_ERROR ''initial element does not enclose the source!'')"
    using scan by (simp add: source_scan_def)
  from e0 show ?thesis
  proof
    assume "e0 cfg \<le> 0 \<and> c = cfg"
    thus ?thesis using s src built by (auto simp: tracer_prep_source_def mesh)
  next
    assume a: "0 < e0 cfg \<and> mesh_barycentric (e0 cfg) (srcpos cfg) mesh = Inr (r, b) \<and> r \<noteq> 0
                \<and> c = cfg\<lparr>bary0 := b\<rparr>"
    hence "\<not> e0 cfg \<le> 0" by simp
    thus ?thesis using a s src built by (auto simp: tracer_prep_source_def mesh)
  qed
qed

text \<open>
  An initial element beyond the last one is the error of \<^verbatim>\<open>mesh_barycentric\<close> (line
  1002), raised before the scan.
\<close>

lemma tracer_prep_e0_exceeds:
  assumes built: "\<not> (tr_n tracer = None \<and> tr_m tracer = None \<and> tr_d tracer = None)"
    and mesh: "tr_mesh tracer = Some mesh"
    and src: "srctype cfg = stPencil \<or> srctype cfg = stIsotropic
              \<or> srctype cfg = stCone \<or> srctype cfg = stArcSin"
    and e0: "0 < e0 cfg" "ne mesh < e0 cfg"
  shows "tracer_prep K tracer cfg
         = Inl (MESH_ERROR ''initial element index exceeds total element count'')"
proof -
  have "mesh_barycentric (e0 cfg) (srcpos cfg) mesh
        = Inl (MESH_ERROR ''initial element index exceeds total element count'')"
    using e0 by (simp add: mesh_barycentric_def Let_def)
  hence "tracer_prep_source K tracer cfg
        = Inl (MESH_ERROR ''initial element index exceeds total element count'')"
    using e0(1) src built by (auto simp: tracer_prep_source_def mesh)
  thus ?thesis by (simp add: tracer_prep_def)
qed

text \<open>
  On a ray tracer without arrays the first branch of line 1067 is taken: the arrays are
  built and the source is not tested in this call. \<^verbatim>\<open>tracer_init\<close> never leaves such a
  ray tracer for one of the five methods (lemma \<open>tracer_init_built\<close>).
\<close>

lemma tracer_prep_source_unbuilt:
  assumes "tr_n tracer = None \<and> tr_m tracer = None \<and> tr_d tracer = None"
    and "tr_mesh tracer = Some mesh"
  shows "tracer_prep_source K tracer cfg
         = (case tracer_build tracer of Inl err \<Rightarrow> Inl err | Inr tracer \<Rightarrow> Inr (tracer, cfg))"
  using assms by (simp add: tracer_prep_source_def)

text \<open>
  Claim C9. Let the ray tracer be the one that \<^verbatim>\<open>tracer_init\<close> returns for a mesh with
  elements and one of the five methods, and let the source be a pencil, isotropic, cone or
  arcsine source. If there is no initial element (\<open>e0 \<le> 0\<close>) or \<^verbatim>\<open>mesh_barycentric\<close>
  returns non-zero for it, and \<^verbatim>\<open>mesh_initelem\<close> returns non-zero, then \<^verbatim>\<open>tracer_prep\<close>
  ends with the error ``initial element does not enclose the source!'': it returns no ray
  tracer and no configuration for the photon transport.
\<close>

theorem tracer_prep_source_fatal:
  assumes init: "tracer_init (Some mesh) meth = Inr tracer"
    and meth: "meth \<noteq> rtOtherMethod" and elems: "0 < ne mesh"
    and src: "srctype cfg = stPencil \<or> srctype cfg = stIsotropic
              \<or> srctype cfg = stCone \<or> srctype cfg = stArcSin"
    and e0: "e0 cfg \<le> 0 \<and> c = cfg
             \<or> 0 < e0 cfg \<and> mesh_barycentric (e0 cfg) (srcpos cfg) mesh = Inr (r, b) \<and> r \<noteq> 0
                \<and> c = cfg\<lparr>bary0 := b\<rparr>"
    and scan: "mesh_initelem K mesh c = Inr (r', c')" "r' \<noteq> 0"
  shows "tracer_prep K tracer cfg
         = Inl (MESH_ERROR ''initial element does not enclose the source!'')"
proof -
  note b = tracer_init_built [OF init meth]
  have "tracer_prep_source K tracer cfg
         = Inl (MESH_ERROR ''initial element does not enclose the source!'')"
    using b(2) b(1) src e0 scan by (rule tracer_prep_source_built)
  thus ?thesis by (simp add: tracer_prep_def)
qed

lemma upt_4: "[0..<4] = [0, 1, 2, 3]"
  by (simp add: upt_rec)

lemma tracer_init_c9:
  "tracer_init (Some mesh_c9) rtPlucker
   = Inr \<lparr>tr_mesh = Some mesh_c9, tr_method = rtPlucker, tr_d = Some 6, tr_m = Some 6, tr_n = Some 4\<rparr>"
proof -
  have refs: "build_refs_ok mesh_c9"
    by (simp add: build_refs_ok_def mesh_c9_def mesh_w2_def mesh_init_def upt_4)
  show ?thesis
    using refs by (simp add: tracer_init_def tracer_build_def mesh_c9_def mesh_w2_def mesh_init_def)
qed

lemma mesh_initelem_c9: "mesh_initelem const_w mesh_c9 c = Inr (1, c)" if "srcpos c = (5, 5, 5)"
  using that
  by (simp add: mesh_initelem_def elem_refs_ok_def in_bbox_def elem_bbox_def mesh_c9_def
      mesh_w2_def mesh_init_def const_w_def upt_4)

lemma mesh_barycentric_c9:
  "mesh_barycentric 1 (5, 5, 5) mesh_c9 = Inr (1, [Some (- 14), Some 5, Some 5, Some 5])"
  by (simp add: mesh_barycentric_def elem_refs_ok_def barycentric_raw_def bary_face_def
      out_def facemap_def vec_diff3_def vec_cross3_def vec_dot3_def mesh_c9_def mesh_w2_def
      mesh_init_def Let_def upt_4)

theorem tracer_prep_source_fatal_witness:
  "\<exists>tracer. tracer_init (Some mesh_c9) rtPlucker = Inr tracer
     \<and> 0 < ne mesh_c9 \<and> srctype cfg_c9 = stPencil
     \<and> e0 cfg_c9 \<le> 0
     \<and> mesh_initelem const_w mesh_c9 cfg_c9 = Inr (1, cfg_c9)
     \<and> tracer_prep const_w tracer cfg_c9
         = Inl (MESH_ERROR ''initial element does not enclose the source!'')
     \<and> 0 < e0 (cfg_c9\<lparr>e0 := 1\<rparr>)
     \<and> mesh_barycentric (e0 (cfg_c9\<lparr>e0 := 1\<rparr>)) (srcpos (cfg_c9\<lparr>e0 := 1\<rparr>)) mesh_c9
         = Inr (1, [Some (- 14), Some 5, Some 5, Some 5])
     \<and> tracer_prep const_w tracer (cfg_c9\<lparr>e0 := 1\<rparr>)
         = Inl (MESH_ERROR ''initial element does not enclose the source!'')"
proof -
  define tracer where
    "tracer = \<lparr>tr_mesh = Some mesh_c9, tr_method = rtPlucker, tr_d = Some 6, tr_m = Some 6, tr_n = Some 4\<rparr>"
  define cfg1 where "cfg1 = cfg_c9\<lparr>e0 := 1\<rparr>"
  define cb where "cb = cfg1\<lparr>bary0 := [Some (- 14), Some 5, Some 5, Some 5]\<rparr>"
  have i: "tracer_init (Some mesh_c9) rtPlucker = Inr tracer"
    unfolding tracer_def by (rule tracer_init_c9)
  have m: "rtPlucker \<noteq> rtOtherMethod" by simp
  have n: "0 < ne mesh_c9" by (simp add: mesh_c9_def mesh_w2_def)
  have s: "srctype cfg_c9 = stPencil" "srctype cfg1 = stPencil"
    by (simp_all add: cfg1_def cfg_c9_def cfg_w_def)
  have e: "e0 cfg_c9 \<le> 0" "0 < e0 cfg1" by (simp_all add: cfg1_def cfg_c9_def cfg_w_def)
  have p: "srcpos cfg_c9 = (5, 5, 5)" "srcpos cb = (5, 5, 5)" "srcpos cfg1 = (5, 5, 5)"
    "e0 cfg1 = 1"
    by (simp_all add: cb_def cfg1_def cfg_c9_def)
  have sc: "mesh_initelem const_w mesh_c9 cfg_c9 = Inr (1, cfg_c9)"
    "mesh_initelem const_w mesh_c9 cb = Inr (1, cb)"
    by (rule mesh_initelem_c9 [OF p(1)], rule mesh_initelem_c9 [OF p(2)])
  have bc: "mesh_barycentric (e0 cfg1) (srcpos cfg1) mesh_c9
         = Inr (1, [Some (- 14), Some 5, Some 5, Some 5])"
    unfolding p by (rule mesh_barycentric_c9)
  have one: "(1 :: int) \<noteq> 0" by simp
  have h1: "e0 cfg_c9 \<le> 0 \<and> cfg_c9 = cfg_c9
     \<or> 0 < e0 cfg_c9 \<and> mesh_barycentric (e0 cfg_c9) (srcpos cfg_c9) mesh_c9 = Inr (1, [])
         \<and> (1 :: int) \<noteq> 0 \<and> cfg_c9 = cfg_c9\<lparr>bary0 := []\<rparr>"
    using e(1) by simp
  have h2: "e0 cfg1 \<le> 0 \<and> cb = cfg1
     \<or> 0 < e0 cfg1 \<and> mesh_barycentric (e0 cfg1) (srcpos cfg1) mesh_c9
           = Inr (1, [Some (- 14), Some 5, Some 5, Some 5])
         \<and> (1 :: int) \<noteq> 0 \<and> cb = cfg1\<lparr>bary0 := [Some (- 14), Some 5, Some 5, Some 5]\<rparr>"
    using e(2) bc by (simp add: cb_def)
  have a: "tracer_prep const_w tracer cfg_c9
         = Inl (MESH_ERROR ''initial element does not enclose the source!'')"
    using tracer_prep_source_fatal [OF i m n _ h1 sc(1) one] s(1) by simp
  have b: "tracer_prep const_w tracer cfg1
         = Inl (MESH_ERROR ''initial element does not enclose the source!'')"
    using tracer_prep_source_fatal [OF i m n _ h2 sc(2) one] s(2) by simp
  show ?thesis
    unfolding cfg1_def [symmetric]
    by (intro exI [of _ tracer] conjI) (fact i n s(1) e sc(1) a bc b)+
qed

section \<open>The scattered direction is a unit vector\<close>

text \<open>
  Claim C10, as amended. With \<open>0 \<le> EPS\<close>, for a direction of Euclidean norm 1, when no
  divisor is zero (\<open>1 - g + 2 g \<xi> \<noteq> 0\<close> if \<open>g > EPS\<close>) and \<^verbatim>\<open>acosf\<close> is called inside its
  domain (\<open>0 \<le> \<xi> \<le> 1\<close> if \<open>g \<le> EPS\<close>), \<^verbatim>\<open>mc_next_scatter\<close> has a result and the
  direction it writes back has Euclidean norm 1, in either branch of the rotation and
  for every azimuthal draw.
\<close>

theorem scatter_keeps_unit_norm:
  assumes eps: "0 \<le> EPS K"
    and dir: "sqrt (vec_dot3 dir dir) = 1"
    and hg: "EPS K < g \<longrightarrow> 1 - g + 2 * g * zangle draws \<noteq> 0"
    and un: "g \<le> EPS K \<longrightarrow> 0 \<le> zangle draws \<and> zangle draws \<le> 1"
  shows "\<exists>len p pm. mc_next_scatter K g dir draws cfg pmom0 = Some (len, p, pm)
           \<and> sqrt (vec_dot3 p p) = 1"
proof -
  have d1: "vec_dot3 dir dir = 1" using dir by (metis real_sqrt_eq_1_iff)
  have "\<exists>st ct. scat_polar (EPS K) g (zangle draws) = Some (st, ct)"
  proof (cases "EPS K < g")
    case True
    then show ?thesis using scat_polar_hg [OF eps True] hg by blast
  next
    case False
    then show ?thesis using scat_polar_uniform [of g "EPS K" "zangle draws"] un by auto
  qed
  then obtain st ct where pol: "scat_polar (EPS K) g (zangle draws) = Some (st, ct)" by blast
  have unit: "st\<^sup>2 + ct\<^sup>2 = 1" by (rule scat_polar_unit [OF pol])
  have az: "(sin (scat_azimuth draws))\<^sup>2 + (cos (scat_azimuth draws))\<^sup>2 = 1" by simp
  from scat_rotate_unit [OF eps d1 unit az] obtain p where
    rot: "scat_rotate (EPS K) dir (sin (scat_azimuth draws), cos (scat_azimuth draws)) (st, ct) = Some p"
    and p1: "vec_dot3 p p = 1" by blast
  have "mc_next_scatter K g dir draws cfg pmom0 =
        Some (scatlen draws, p, if ismomentum cfg \<noteq> 0 then pmom0 + (1 - ct) else pmom0)"
    by (simp add: mc_next_scatter_def Let_def pol rot)
  then show ?thesis using p1 by simp
qed

theorem scatter_keeps_unit_norm_witness:
  "0 \<le> EPS const_w \<and> sqrt (vec_dot3 (0, 0, 1) (0, 0, 1)) = 1
   \<and> (\<exists>len p pm. mc_next_scatter const_w (9 / 10) (0, 0, 1) draws_w cfg_w 0 = Some (len, p, pm)
           \<and> sqrt (vec_dot3 p p) = 1)"
proof -
  have h: "0 \<le> EPS const_w" by (simp add: const_w_def)
  have d: "sqrt (vec_dot3 (0, 0, 1) (0, 0, 1)) = 1" by (simp add: vec_dot3_def)
  have h1: "EPS const_w < 9 / 10 \<longrightarrow> 1 - 9 / 10 + 2 * (9 / 10) * zangle draws_w \<noteq> (0 :: real)"
    by (simp add: draws_w_def)
  have h2: "(9 / 10 :: real) \<le> EPS const_w \<longrightarrow> 0 \<le> zangle draws_w \<and> zangle draws_w \<le> 1"
    by (simp add: draws_w_def)
  show ?thesis
    using scatter_keeps_unit_norm [OF h d h1 h2, of cfg_w 0] h d by blast
qed

text \<open>
  Claim C10 as stated fails for \<open>g = 1\<close> and the draw \<open>\<xi> = 0\<close>: line 1433 divides
  \<open>1 - g\<^sup>2 = 0\<close> by \<open>1 - g + 2 g \<xi> = 0\<close>. Exact arithmetic gives the quotient no value (IEEE
  arithmetic gives NaN, which passes both clamping tests and reaches every component of
  the direction written back), so the direction written back has no norm.
\<close>

theorem scatter_unit_norm_counterexample:
  "sqrt (vec_dot3 (0, 0, 1) (0, 0, 1)) = 1
   \<and> mc_next_scatter const_w 1 (0, 0, 1) draws_c cfg_w 0 = None"
  by (simp add: vec_dot3_def mc_next_scatter_def scat_polar_def fdiv_def const_w_def draws_c_def
      Let_def)


end
